theory Spec2Isabelle
  imports Main "HOL-Library.Word"
begin

unbundle bit_operations_syntax

text \<open>
  A shallow embedding of the two-pass assembler: the C library functions the code
  relies on, the data structures of assembler.h, the instruction encoder (words.c,
  opmodes.c), the directive parsers (functions.c), the first-pass driver (first\_pass.c)
  and the second pass with its writers (second\_pass.c).

  Conventions. A C string is a \<open>string\<close> without its terminating NUL; a pointer into
  a string is the suffix it points to, and \<open>peek\<close> reads the character under the
  pointer (NUL at the end). Linked lists are lists in link order. The \<open>long\<close>
  counters IC and DC are \<open>int\<close>, an \<open>unsigned\<close> is a \<open>32 word\<close>, the bit-fields of a
  machine word are an \<open>8 word\<close> and a \<open>2 word\<close>. Every translation unit of the source
  has its own \<open>static diag g_diag\<close>; the model keeps one list of reported error codes
  per translation unit, and the error count of a unit is the length of its list.
  Allocation failure and failure to create an output file are not modelled.
\<close>

section \<open>The C library functions used by the assembler\<close>

definition peek :: "string \<Rightarrow> char" where
  "peek p = (case p of [] \<Rightarrow> CHR 0x00 | c # _ \<Rightarrow> c)"

text \<open>What the string functions see of a buffer: the bytes before the first NUL.\<close>

definition c_str :: "string \<Rightarrow> string" where
  "c_str buf = takeWhile (\<lambda>c. c \<noteq> CHR 0x00) buf"

definition isspace :: "char \<Rightarrow> bool" where
  "isspace c = (c = CHR '' '' \<or> (9 \<le> (of_char c :: nat) \<and> (of_char c :: nat) \<le> 13))"

definition isdigit :: "char \<Rightarrow> bool" where
  "isdigit c = (48 \<le> (of_char c :: nat) \<and> (of_char c :: nat) \<le> 57)"

definition isalpha :: "char \<Rightarrow> bool" where
  "isalpha c = ((65 \<le> (of_char c :: nat) \<and> (of_char c :: nat) \<le> 90) \<or>
                (97 \<le> (of_char c :: nat) \<and> (of_char c :: nat) \<le> 122))"

definition isalnum :: "char \<Rightarrow> bool" where
  "isalnum c = (isalpha c \<or> isdigit c)"

definition tolower :: "char \<Rightarrow> char" where
  "tolower c = (if 65 \<le> (of_char c :: nat) \<and> (of_char c :: nat) \<le> 90
                then char_of ((of_char c :: nat) + 32) else c)"

text \<open>\<open>strchr\<close> and \<open>strstr\<close> return the suffix that starts at the match.\<close>

fun strchr :: "string \<Rightarrow> char \<Rightarrow> string option" where
  "strchr [] c = None"
| "strchr (x # xs) c = (if x = c then Some (x # xs) else strchr xs c)"

fun strstr :: "string \<Rightarrow> string \<Rightarrow> string option" where
  "strstr [] needle = (if needle = [] then Some [] else None)"
| "strstr (x # xs) needle =
     (if take (length needle) (x # xs) = needle then Some (x # xs) else strstr xs needle)"

text \<open>
  \<open>strtol(nptr, &endptr, 10)\<close>: white space, an optional sign, decimal digits; the
  value is clamped to the range of \<open>long\<close> (64 bits). The result is \<open>None\<close> when no
  digits were found (the source tests this as \<open>endptr == nptr\<close>), and otherwise the
  value and the rest of the string after the digits.
\<close>

definition LONG_MAX :: int where
  "LONG_MAX = 2 ^ 63 - 1"

definition LONG_MIN :: int where
  "LONG_MIN = - (2 ^ 63)"

fun strtol_digits :: "string \<Rightarrow> int \<Rightarrow> int \<times> string" where
  "strtol_digits [] acc = (acc, [])"
| "strtol_digits (c # cs) acc =
     (if isdigit c then strtol_digits cs (10 * acc + (int (of_char c) - 48))
      else (acc, c # cs))"

definition strtol :: "string \<Rightarrow> (int \<times> string) option" where
  "strtol nptr =
     (let s = dropWhile isspace nptr;
          neg = (peek s = CHR ''-'');
          t = (if peek s = CHR ''-'' \<or> peek s = CHR ''+'' then tl s else s)
      in if \<not> isdigit (peek t) then None
         else (case strtol_digits t 0 of
                 (n, rest) \<Rightarrow> Some (max LONG_MIN (min LONG_MAX (if neg then - n else n)), rest)))"

text \<open>The cast \<open>(int)v\<close> of a \<open>long\<close>: the low 32 bits, read as two's complement.\<close>

definition int_of_long :: "int \<Rightarrow> int" where
  "int_of_long v = sint (word_of_int v :: 32 word)"

section \<open>Data structures (assembler.h)\<close>

datatype CommandsTable =
    MOV | CMP | ADD | SUB | NOT_OP | CLR | LEA | INC | DEC | JMP | BNE | RED | PRN | JSR
  | RTS | STOP | DATA | STRING | MATRIX | ENTRY | EXTERN | UNDEFINED

text \<open>The numeric value of an instruction's enumerator, as \<open>(unsigned)op\<close>.\<close>

fun opcode_value :: "CommandsTable \<Rightarrow> 32 word" where
  "opcode_value MOV = 0" | "opcode_value CMP = 1" | "opcode_value ADD = 2"
| "opcode_value SUB = 3" | "opcode_value NOT_OP = 4" | "opcode_value CLR = 5"
| "opcode_value LEA = 6" | "opcode_value INC = 7" | "opcode_value DEC = 8"
| "opcode_value JMP = 9" | "opcode_value BNE = 10" | "opcode_value RED = 11"
| "opcode_value PRN = 12" | "opcode_value JSR = 13" | "opcode_value RTS = 14"
| "opcode_value STOP = 15" | "opcode_value DATA = 16" | "opcode_value STRING = 17"
| "opcode_value MATRIX = 18" | "opcode_value ENTRY = 19" | "opcode_value EXTERN = 20"
| "opcode_value UNDEFINED = -1"

datatype are_t = ARE_ABS | ARE_REL | ARE_EXT

text \<open>\<open>ARE_ABS = 0, ARE_REL = 2, ARE_EXT = 1\<close>, stored in the 2-bit field of a word.\<close>

fun are_bits :: "are_t \<Rightarrow> 2 word" where
  "are_bits ARE_ABS = 0"
| "are_bits ARE_REL = 2"
| "are_bits ARE_EXT = 1"

datatype addr_mode = ADDR_IMMEDIATE | ADDR_DIRECT | ADDR_MATRIX | ADDR_REGISTER | ADDR_NONE

datatype symbol_type = DATA_SYMBOL | CODE_SYMBOL | EXTERNAL_SYMBOL | ENTRY_SYMBOL | NONE_SYMBOL

record data_word =
  dw_address :: int
  dw_value :: "16 word"

record machine_word =
  mw_address :: int
  mw_label :: string
  mw_value :: "8 word"
  mw_are :: "2 word"

record entry_list =
  ent_labels :: string
  ent_addr :: int

record extern_list =
  ext_labels :: string
  ext_addr_head :: "int list"

record symbol_table =
  sym_key :: string
  sym_value :: int
  sym_type :: symbol_type

text \<open>
  Everything one input file's translation reads and writes: the counters, the symbol
  table, the two images, the entry and extern lists, the error codes reported through
  the \<open>g_diag\<close> of each translation unit, and the output files (\<open>None\<close>: not written).
\<close>

record asm_state =
  IC :: int
  DC :: int
  symtab :: "symbol_table list"
  ic_image :: "machine_word list"
  data_img :: "data_word list"
  ent_list :: "entry_list list"
  ext_list :: "extern_list list"
  first_pass_errs :: "string list"
  functions_errs :: "string list"
  words_errs :: "string list"
  opmodes_errs :: "string list"
  second_pass_errs :: "string list"
  ob_file :: "string option"
  ent_file :: "string option"
  ext_file :: "string option"

text \<open>\<open>diag_error(&g_diag, code, ...)\<close> in each translation unit.\<close>

definition diag_error_first_pass :: "string \<Rightarrow> asm_state \<Rightarrow> asm_state" where
  "diag_error_first_pass code st = st\<lparr>first_pass_errs := first_pass_errs st @ [code]\<rparr>"

definition diag_error_functions :: "string \<Rightarrow> asm_state \<Rightarrow> asm_state" where
  "diag_error_functions code st = st\<lparr>functions_errs := functions_errs st @ [code]\<rparr>"

definition diag_error_words :: "string \<Rightarrow> asm_state \<Rightarrow> asm_state" where
  "diag_error_words code st = st\<lparr>words_errs := words_errs st @ [code]\<rparr>"

definition diag_error_opmodes :: "string \<Rightarrow> asm_state \<Rightarrow> asm_state" where
  "diag_error_opmodes code st = st\<lparr>opmodes_errs := opmodes_errs st @ [code]\<rparr>"

definition diag_error_second_pass :: "string \<Rightarrow> asm_state \<Rightarrow> asm_state" where
  "diag_error_second_pass code st = st\<lparr>second_pass_errs := second_pass_errs st @ [code]\<rparr>"

section \<open>The second pass (second\_pass.c)\<close>

subsection \<open>Base-4 letters\<close>

text \<open>
  \<^verbatim>\<open>char quad_letter(unsigned d) { return (char)('a' + (d & 0x3u)); }\<close>
\<close>

definition quad_letter :: "32 word \<Rightarrow> char" where
  "quad_letter d = char_of (97 + unat (d AND 3))"

text \<open>
  \<^verbatim>\<open>for (i = width - 1; i >= 0; --i) { out[i] = quad_letter(value & 3); value >>= 2; }\<close>
  The loop counter of the model is \<open>i + 1\<close>, so that it can stop at 0.
\<close>

fun to_base4_loop :: "nat \<Rightarrow> 32 word \<Rightarrow> string \<Rightarrow> string" where
  "to_base4_loop 0 v out = out"
| "to_base4_loop (Suc i) v out =
     to_base4_loop i (drop_bit 2 v) (out[i := quad_letter (v AND 3)])"

text \<open>
  \<open>to_base4_letters\<close> writes \<open>width\<close> letters and the terminating NUL into the caller's
  buffer; the model returns the \<open>width\<close> letters, and \<open>None\<close> where the source returns
  without writing (\<open>width <= 0\<close>).
\<close>

definition to_base4_letters :: "32 word \<Rightarrow> int \<Rightarrow> string option" where
  "to_base4_letters v width =
     (if width \<le> 0 then None
      else Some (to_base4_loop (nat width) v (replicate (nat width) (CHR 0x00))))"

text \<open>
  \<open>to_base4_letters_header\<close>: the digits are collected least significant first into
  \<open>tmp\<close> (\<open>BASE4_TMP_MAX = 17\<close>, so at most 16 of them) and then reversed.
\<close>

function header_loop :: "32 word \<Rightarrow> string \<Rightarrow> string" where
  "header_loop v tmp =
     (if 0 < v \<and> length tmp < 16
      then header_loop (drop_bit 2 v) (tmp @ [quad_letter (v AND 3)])
      else tmp)"
  by pat_completeness auto
termination
  by (relation "measure (\<lambda>(v, tmp). 16 - length tmp)") auto

declare header_loop.simps [simp del]

definition to_base4_letters_header :: "32 word \<Rightarrow> string" where
  "to_base4_letters_header v = (if v = 0 then ''a'' else rev (header_loop v []))"

text \<open>What is in a buffer after a call of \<open>to_base4_letters\<close> on it.\<close>

definition buffer_after :: "string \<Rightarrow> string option \<Rightarrow> string" where
  "buffer_after buf written = (case written of None \<Rightarrow> buf | Some s \<Rightarrow> s)"

definition word10_to_letters_code :: "32 word \<Rightarrow> 32 word \<Rightarrow> string option" where
  "word10_to_letters_code payload8 are2 =
     to_base4_letters (push_bit 2 (payload8 AND 0xFF) OR (are2 AND 3)) 5"

definition word10_to_letters_data :: "32 word \<Rightarrow> string option" where
  "word10_to_letters_data payload10 = to_base4_letters (payload10 AND 0x3FF) 5"

subsection \<open>Label resolution\<close>

definition add_to_extern_usage_list :: "int list \<Rightarrow> int \<Rightarrow> int list" where
  "add_to_extern_usage_list head addr = head @ [addr]"

text \<open>
  \<open>find_symbol\<close> (first\_pass.c); \<open>resolve_labels_in_place\<close>, \<open>complete_entry_labels\<close> and
  \<open>emit_symbol_addr\<close> walk the table with the same loop written out.
\<close>

fun find_symbol :: "symbol_table list \<Rightarrow> string \<Rightarrow> symbol_table option" where
  "find_symbol [] name = None"
| "find_symbol (cur # rest) name =
     (if sym_key cur = name then Some cur else find_symbol rest name)"

text \<open>
  The search of the extern list in \<open>resolve_labels_in_place\<close>: the first node with the
  label gets the address appended to its usage list. The result says whether a node
  was found.
\<close>

fun search_extern_list :: "extern_list list \<Rightarrow> string \<Rightarrow> int \<Rightarrow> bool \<times> extern_list list" where
  "search_extern_list [] lbl addr = (False, [])"
| "search_extern_list (e # es) lbl addr =
     (if ext_labels e = lbl
      then (True, e\<lparr>ext_addr_head := add_to_extern_usage_list (ext_addr_head e) addr\<rparr> # es)
      else (case search_extern_list es lbl addr of (found, es') \<Rightarrow> (found, e # es')))"

text \<open>The body of the loop of \<open>resolve_labels_in_place\<close>, for one word.\<close>

definition resolve_word ::
  "machine_word \<Rightarrow> symbol_table list \<Rightarrow> extern_list list \<Rightarrow> machine_word \<times> extern_list list" where
  "resolve_word mw tab exts =
     (if mw_label mw = [] then (mw, exts)
      else
        (let mw0 = mw\<lparr>mw_value := 0\<rparr> in
         case find_symbol tab (mw_label mw) of
           Some hit \<Rightarrow>
             (mw0\<lparr>mw_are := are_bits ARE_REL, mw_value := word_of_int (sym_value hit)\<rparr>, exts)
         | None \<Rightarrow>
             (case search_extern_list exts (mw_label mw) (mw_address mw) of
                (True, exts') \<Rightarrow> (mw0\<lparr>mw_are := are_bits ARE_EXT\<rparr>, exts')
              | (False, exts') \<Rightarrow> (mw0, exts))))"

fun resolve_labels_in_place ::
  "machine_word list \<Rightarrow> symbol_table list \<Rightarrow> extern_list list
     \<Rightarrow> machine_word list \<times> extern_list list" where
  "resolve_labels_in_place [] tab exts = ([], exts)"
| "resolve_labels_in_place (mw # rest) tab exts =
     (case resolve_word mw tab exts of
        (mw', exts') \<Rightarrow>
          (case resolve_labels_in_place rest tab exts' of
             (rest', exts'') \<Rightarrow> (mw' # rest', exts'')))"

subsection \<open>Entry completion\<close>

definition complete_entry :: "symbol_table list \<Rightarrow> entry_list \<Rightarrow> entry_list" where
  "complete_entry tab ent =
     (case find_symbol tab (ent_labels ent) of
        None \<Rightarrow> ent
      | Some hit \<Rightarrow> ent\<lparr>ent_addr := int_of_long (sym_value hit)\<rparr>)"

definition complete_entry_labels :: "symbol_table list \<Rightarrow> entry_list list \<Rightarrow> entry_list list" where
  "complete_entry_labels tab ents = map (complete_entry tab) ents"

subsection \<open>Writers\<close>

text \<open>
  The writers print through \<open>addr_buf\<close> and \<open>word_str\<close>; the model threads the two
  buffers and the text written so far. One line is
  \<^verbatim>\<open>fprintf(out, "%s %s\n", addr_buf, word_str)\<close>.
\<close>

fun write_code_section ::
  "machine_word list \<Rightarrow> int \<Rightarrow> string \<times> string \<times> string \<Rightarrow> string \<times> string \<times> string" where
  "write_code_section [] addr_width (addr_buf, word_str, out) = (addr_buf, word_str, out)"
| "write_code_section (mw # rest) addr_width (addr_buf, word_str, out) =
     (let addr_buf' = buffer_after addr_buf
                        (to_base4_letters (word_of_int (mw_address mw)) addr_width);
          word_str' = buffer_after word_str
                        (word10_to_letters_code (ucast (mw_value mw) AND 0xFF)
                                                (ucast (mw_are mw) AND 3))
      in write_code_section rest addr_width
           (addr_buf', word_str', out @ addr_buf' @ '' '' @ word_str' @ [CHR 0x0A]))"

fun write_data_section ::
  "data_word list \<Rightarrow> int \<Rightarrow> string \<times> string \<times> string \<Rightarrow> string \<times> string \<times> string" where
  "write_data_section [] addr_width (addr_buf, word_str, out) = (addr_buf, word_str, out)"
| "write_data_section (dw # rest) addr_width (addr_buf, word_str, out) =
     (let addr_buf' = buffer_after addr_buf
                        (to_base4_letters (word_of_int (dw_address dw)) addr_width);
          word_str' = buffer_after word_str (word10_to_letters_data (ucast (dw_value dw)))
      in write_data_section rest addr_width
           (addr_buf', word_str', out @ addr_buf' @ '' '' @ word_str' @ [CHR 0x0A]))"

text \<open>
  \<open>write_ob_base4_only\<close>. \<open>IC_INIT_VALUE = 100\<close>, \<open>OB_WORD_LIMIT = 255\<close>; the header is
  \<^verbatim>\<open>fprintf(out, "\t%s\t%s\n", addr_buf, word_str)\<close>.
\<close>

definition write_ob_base4_only ::
  "string \<Rightarrow> machine_word list \<Rightarrow> data_word list \<Rightarrow> int \<Rightarrow> int \<Rightarrow> int \<Rightarrow> asm_state \<Rightarrow> asm_state" where
  "write_ob_base4_only stem code_head data_head IC_final addr_width DC_final st =
     (let code_words = (if IC_final > 100 then IC_final - 100 else 0);
          data_words = (if DC_final > 0 then DC_final else 0);
          total_words = code_words + data_words;
          width_capacity = (2::int) ^ nat (2 * addr_width);
          max_allowed = (if width_capacity - 1 < 255 then width_capacity - 1 else 255)
      in if total_words > max_allowed then diag_error_second_pass ''AS_OB_TOO_LONG'' st
         else
           (let addr_buf = to_base4_letters_header (word_of_int IC_final);
                word_str = to_base4_letters_header (word_of_int DC_final);
                header = [CHR 0x09] @ addr_buf @ [CHR 0x09] @ word_str @ [CHR 0x0A]
            in case write_code_section code_head addr_width (addr_buf, word_str, header) of
                 (addr_buf1, word_str1, out1) \<Rightarrow>
                   (case write_data_section data_head addr_width (addr_buf1, word_str1, out1) of
                      (addr_buf2, word_str2, out2) \<Rightarrow> st\<lparr>ob_file := Some out2\<rparr>)))"

definition has_any_extern_usage :: "extern_list list \<Rightarrow> bool" where
  "has_any_extern_usage xs = (\<exists>e \<in> set xs. ext_addr_head e \<noteq> [])"

definition path_too_long :: "string \<Rightarrow> string \<Rightarrow> nat \<Rightarrow> bool" where
  "path_too_long stem suffix cap = (length stem + length suffix + 1 > cap)"

definition address_line :: "string \<Rightarrow> int \<Rightarrow> string" where
  "address_line name addr =
     name @ '' '' @ buffer_after [] (to_base4_letters (word_of_int addr) 4) @ [CHR 0x0A]"

definition write_ext_base4_only :: "string \<Rightarrow> extern_list list \<Rightarrow> asm_state \<Rightarrow> asm_state" where
  "write_ext_base4_only stem exts st =
     (if exts = [] \<or> \<not> has_any_extern_usage exts then st
      else if path_too_long stem ''.ext'' 512 then diag_error_second_pass ''AS420'' st
      else st\<lparr>ext_file :=
             Some (concat (map (\<lambda>e. concat (map (address_line (ext_labels e)) (ext_addr_head e)))
                               exts))\<rparr>)"

definition write_ent_base4_only :: "string \<Rightarrow> entry_list list \<Rightarrow> asm_state \<Rightarrow> asm_state" where
  "write_ent_base4_only stem ents st =
     (if ents = [] then st
      else if path_too_long stem ''.ent'' 512 then diag_error_second_pass ''AS422'' st
      else st\<lparr>ent_file := Some (concat (map (\<lambda>e. address_line (ent_labels e) (ent_addr e)) ents))\<rparr>)"

text \<open>
  \<open>second_pass\<close>. The symbol table, the images and the lists it is called with are those
  of the state; \<open>OB_ADDR_WIDTH_DEFAULT = 4\<close>. The error count it tests is the one of
  second\_pass.c.
\<close>

definition second_pass :: "string \<Rightarrow> int \<Rightarrow> int \<Rightarrow> asm_state \<Rightarrow> int \<times> asm_state" where
  "second_pass stem IC_final DC_final st =
     (if length (second_pass_errs st) > 0 then (- 1, diag_error_second_pass ''AS050'' st)
      else
        (case resolve_labels_in_place (ic_image st) (symtab st) (ext_list st) of
           (code', exts') \<Rightarrow>
             (let st1 = st\<lparr>ic_image := code', ext_list := exts',
                           ent_list := complete_entry_labels (symtab st) (ent_list st)\<rparr>;
                  st2 = write_ob_base4_only stem (ic_image st1) (data_img st1) IC_final 4 DC_final st1;
                  st3 = write_ent_base4_only stem (ent_list st2) st2;
                  st4 = write_ext_base4_only stem (ext_list st3) st3
              in (0, st4))))"

section \<open>Operand syntax (functions.c, words.c)\<close>

definition skip_ws :: "string \<Rightarrow> string" where
  "skip_ws p = dropWhile isspace p"

definition strip_inline_comment :: "string \<Rightarrow> string" where
  "strip_inline_comment line = takeWhile (\<lambda>c. c \<noteq> CHR '';'') line"

text \<open>
  \<open>IS_REGISTER_PREFIX\<close> and \<open>IS_VALID_REGISTER_CHAR\<close>: \<open>r\<close> or \<open>R\<close>, and a digit
  \<open>'0'..'7'\<close>.
\<close>

definition is_register_prefix :: "char \<Rightarrow> bool" where
  "is_register_prefix c = (c = CHR ''r'' \<or> c = CHR ''R'')"

definition is_valid_register_char :: "char \<Rightarrow> bool" where
  "is_valid_register_char c = (48 \<le> (of_char c :: nat) \<and> (of_char c :: nat) \<le> 55)"

definition is_register_token :: "string \<Rightarrow> bool" where
  "is_register_token token =
     (case token of
        [p, d] \<Rightarrow> is_register_prefix p \<and> is_valid_register_char d
      | _ \<Rightarrow> False)"

definition reg_id :: "string \<Rightarrow> int" where
  "reg_id tok = (if \<not> is_register_token tok then - 1 else int (of_char (tok ! 1)) - 48)"

text \<open>
  \<open>trim_inplace\<close>: the result starts at the first character that is not white space,
  and the white space at its end is cut off.
\<close>

definition trim_inplace :: "string \<Rightarrow> string" where
  "trim_inplace str = rev (dropWhile isspace (rev (dropWhile isspace str)))"

lemma strchr_length: "strchr s c = Some r \<Longrightarrow> length r \<le> length s"
  by (induction s) (auto split: if_splits)

text \<open>
  The comma count of \<open>split_operands\<close>: a \<open>[\<close> moves the cursor behind the next \<open>]\<close>,
  and the count stops where a \<open>[\<close> is not closed.
\<close>

function count_commas :: "string \<Rightarrow> nat \<Rightarrow> nat" where
  "count_commas cursor n =
     (case cursor of
        [] \<Rightarrow> n
      | c # rest \<Rightarrow>
          if c = CHR ''[''
          then (case strchr rest (CHR '']'') of
                  None \<Rightarrow> n
                | Some close \<Rightarrow> count_commas (tl close) n)
          else count_commas rest (if c = CHR '','' then n + 1 else n))"
  by pat_completeness auto
termination
proof (relation "measure (\<lambda>(cursor, n). length cursor)")
  show "wf (measure (\<lambda>(cursor, n). length cursor))"
    by simp
next
  fix cursor :: string and n :: nat and c rest close
  assume "cursor = c # rest" and "strchr rest (CHR '']'') = Some close"
  then show "((tl close, n), cursor, n) \<in> measure (\<lambda>(cursor, n). length cursor)"
    using strchr_length [of rest "CHR '']''" close] by simp
next
  fix cursor :: string and n :: nat and c rest
  assume "cursor = c # rest"
  then show "((rest, if c = CHR '','' then n + 1 else n), cursor, n)
               \<in> measure (\<lambda>(cursor, n). length cursor)"
    by simp
qed

declare count_commas.simps [simp del]

text \<open>
  \<open>split_operands\<close>: the number of operands and the two tokens (\<open>None\<close> for a pointer
  that stays \<open>NULL\<close>). The text after the mnemonic is split at its first comma.
\<close>

definition split_operands :: "string \<Rightarrow> nat \<times> string option \<times> string option" where
  "split_operands text =
     (let p0 = trim_inplace (strip_inline_comment text) in
      if p0 = [] then (0, None, None)
      else
        (let p = trim_inplace (dropWhile (\<lambda>c. \<not> isspace c) p0) in
         if p = [] then (0, None, None)
         else if count_commas p 0 > 1 then (0, None, None)
         else
           (case strchr p (CHR '','') of
              None \<Rightarrow>
                (let left = trim_inplace p in
                 if left \<noteq> [] then (1, Some left, None) else (0, None, None))
            | Some comma \<Rightarrow>
                (let left = trim_inplace (take (length p - length comma) p);
                     right = trim_inplace (tl comma)
                 in if left = [] \<or> right = [] then (0, None, None)
                    else (2, Some left, Some right)))))"

subsection \<open>Matrix operands\<close>

datatype matrix_error_t =
    MATRIX_ERROR_NONE | MATRIX_ERROR_NO_BRACKETS | MATRIX_ERROR_MISSING_CLOSE_BRACKET
  | MATRIX_ERROR_MISSING_SECOND_OPEN | MATRIX_ERROR_MISSING_SECOND_CLOSE
  | MATRIX_ERROR_EMPTY_LABEL | MATRIX_ERROR_LABEL_TOO_LONG | MATRIX_ERROR_EMPTY_INDEX
  | MATRIX_ERROR_INVALID_REGISTER | MATRIX_ERROR_NON_REGISTER
  | MATRIX_ERROR_JUNK_BETWEEN_BRACKETS

datatype register_validity_t = REG_VALID | REG_INVALID_NOT_REGISTER | REG_INVALID_BAD_REGISTER

text \<open>
  The slices of \<open>matrix_parse_result_t\<close> are kept as the strings they delimit; the
  error position, which only places the caret of the diagnostic, is left out.
\<close>

record matrix_parse_result_t =
  mp_label :: string
  mp_reg1 :: string
  mp_reg2 :: string
  mp_error :: matrix_error_t

text \<open>\<open>find_bracket_pair\<close>: the suffixes that start at the \<open>[\<close> and at the \<open>]\<close>.\<close>

definition find_bracket_pair :: "string \<Rightarrow> (string \<times> string) option" where
  "find_bracket_pair start =
     (case strchr start (CHR ''['') of
        None \<Rightarrow> None
      | Some open_bracket \<Rightarrow>
          (case strchr (tl open_bracket) (CHR '']'') of
             None \<Rightarrow> None
           | Some close_bracket \<Rightarrow> Some (open_bracket, close_bracket)))"

text \<open>\<open>locate_all_brackets\<close>: the four bracket positions, as offsets into the token.\<close>

definition locate_all_brackets :: "string \<Rightarrow> (nat \<times> nat \<times> nat \<times> nat) option" where
  "locate_all_brackets token =
     (case find_bracket_pair token of
        None \<Rightarrow> None
      | Some (o1, c1) \<Rightarrow>
          (case find_bracket_pair (tl c1) of
             None \<Rightarrow> None
           | Some (o2, c2) \<Rightarrow>
               (let b1 = length token - length o1; b2 = length token - length c1;
                    b3 = length token - length o2; b4 = length token - length c2
                in if b1 < b2 \<and> b2 < b3 \<and> b3 < b4 then Some (b1, b2, b3, b4) else None)))"

definition slice :: "string \<Rightarrow> nat \<Rightarrow> nat \<Rightarrow> string" where
  "slice s b e = take (e - b) (drop b s)"

definition trim_whitespace :: "string \<Rightarrow> string" where
  "trim_whitespace s = rev (dropWhile isspace (rev (dropWhile isspace s)))"

definition validate_register_slice :: "string \<Rightarrow> register_validity_t" where
  "validate_register_slice s =
     (if length s = 0 then REG_INVALID_NOT_REGISTER
      else if is_register_prefix (hd s)
      then (if length s = 2 \<and> is_valid_register_char (s ! 1) then REG_VALID
            else REG_INVALID_BAD_REGISTER)
      else REG_INVALID_NOT_REGISTER)"

definition copy_slice_safe :: "string \<Rightarrow> nat \<Rightarrow> string" where
  "copy_slice_safe s capacity = take (capacity - 1) s"

definition parse_matrix_operand :: "string \<Rightarrow> matrix_parse_result_t" where
  "parse_matrix_operand operand =
     (let result = \<lparr>mp_label = [], mp_reg1 = [], mp_reg2 = [], mp_error = MATRIX_ERROR_NONE\<rparr> in
      case locate_all_brackets operand of
        None \<Rightarrow> result\<lparr>mp_error := MATRIX_ERROR_NO_BRACKETS\<rparr>
      | Some (b1, b2, b3, b4) \<Rightarrow>
          (let r1 = result\<lparr>mp_label := slice operand 0 b1\<rparr> in
           if b1 = 0 then r1\<lparr>mp_error := MATRIX_ERROR_EMPTY_LABEL\<rparr>
           else if b1 > 31 then r1\<lparr>mp_error := MATRIX_ERROR_LABEL_TOO_LONG\<rparr>
           else
             (let r2 = r1\<lparr>mp_reg1 := trim_whitespace (slice operand (b1 + 1) b2)\<rparr> in
              if mp_reg1 r2 = [] then r2\<lparr>mp_error := MATRIX_ERROR_EMPTY_INDEX\<rparr>
              else if validate_register_slice (mp_reg1 r2) \<noteq> REG_VALID
              then r2\<lparr>mp_error :=
                         (if validate_register_slice (mp_reg1 r2) = REG_INVALID_BAD_REGISTER
                          then MATRIX_ERROR_INVALID_REGISTER else MATRIX_ERROR_NON_REGISTER)\<rparr>
              else if dropWhile isspace (slice operand (b2 + 1) b3) \<noteq> []
              then r2\<lparr>mp_error := MATRIX_ERROR_JUNK_BETWEEN_BRACKETS\<rparr>
              else
                (let r3 = r2\<lparr>mp_reg2 := trim_whitespace (slice operand (b3 + 1) b4)\<rparr> in
                 if mp_reg2 r3 = [] then r3\<lparr>mp_error := MATRIX_ERROR_EMPTY_INDEX\<rparr>
                 else if validate_register_slice (mp_reg2 r3) \<noteq> REG_VALID
                 then r3\<lparr>mp_error :=
                            (if validate_register_slice (mp_reg2 r3) = REG_INVALID_BAD_REGISTER
                             then MATRIX_ERROR_INVALID_REGISTER else MATRIX_ERROR_NON_REGISTER)\<rparr>
                 else r3\<lparr>mp_error := MATRIX_ERROR_NONE\<rparr>))))"

text \<open>\<open>report_matrix_error\<close>: the code reported for each kind of error.\<close>

definition report_matrix_error :: "matrix_parse_result_t \<Rightarrow> asm_state \<Rightarrow> asm_state" where
  "report_matrix_error result st =
     (case mp_error result of
        MATRIX_ERROR_NO_BRACKETS \<Rightarrow> diag_error_functions ''AS110'' st
      | MATRIX_ERROR_EMPTY_LABEL \<Rightarrow> diag_error_functions ''AS110'' st
      | MATRIX_ERROR_LABEL_TOO_LONG \<Rightarrow> diag_error_functions ''AS020'' st
      | MATRIX_ERROR_EMPTY_INDEX \<Rightarrow> diag_error_functions ''AS111'' st
      | MATRIX_ERROR_INVALID_REGISTER \<Rightarrow> diag_error_functions ''AS114'' st
      | MATRIX_ERROR_NON_REGISTER \<Rightarrow> diag_error_functions ''AS113'' st
      | MATRIX_ERROR_JUNK_BETWEEN_BRACKETS \<Rightarrow> diag_error_functions ''AS112'' st
      | _ \<Rightarrow> st)"

text \<open>
  \<open>split_matrix_ex\<close>, as the encoder calls it: the label buffer has 64 bytes, the
  register buffers \<open>REGBUF_MAX = 3\<close>. \<open>None\<close> is the return value 0.
\<close>

definition split_matrix_ex ::
  "string \<Rightarrow> asm_state \<Rightarrow> (string \<times> string \<times> string) option \<times> asm_state" where
  "split_matrix_ex token st =
     (let result = parse_matrix_operand token in
      if mp_error result \<noteq> MATRIX_ERROR_NONE then (None, report_matrix_error result st)
      else (Some (copy_slice_safe (mp_label result) 64,
                  copy_slice_safe (mp_reg1 result) 3,
                  copy_slice_safe (mp_reg2 result) 3), st))"

definition looks_like_matrix :: "string \<Rightarrow> bool" where
  "looks_like_matrix operand = (mp_error (parse_matrix_operand operand) = MATRIX_ERROR_NONE)"

definition get_addr_method :: "string option \<Rightarrow> addr_mode" where
  "get_addr_method operand =
     (case operand of
        None \<Rightarrow> ADDR_NONE
      | Some opnd \<Rightarrow>
          (let trimmed = dropWhile isspace opnd in
           if trimmed = [] then ADDR_NONE
           else if peek trimmed = CHR ''#'' then ADDR_IMMEDIATE
           else if is_register_token trimmed then ADDR_REGISTER
           else if looks_like_matrix trimmed then ADDR_MATRIX
           else if strchr trimmed (CHR ''['') \<noteq> None then ADDR_MATRIX
           else ADDR_DIRECT))"

fun to2bits :: "addr_mode \<Rightarrow> 32 word" where
  "to2bits ADDR_IMMEDIATE = 0"
| "to2bits ADDR_DIRECT = 1"
| "to2bits ADDR_MATRIX = 2"
| "to2bits ADDR_REGISTER = 3"
| "to2bits ADDR_NONE = 0"

section \<open>Addressing-mode rules (opmodes.c)\<close>

record opcode_mode =
  rule_name :: string
  min_ops :: nat
  max_ops :: nat
  src_mask :: "32 word"
  dst_mask :: "32 word"

text \<open>\<open>AM_BIT(n) = 1u << n\<close> on the values of the \<open>addr_mode\<close> enumerators.\<close>

definition AM_IMM :: "32 word" where "AM_IMM = 1"
definition AM_DIR :: "32 word" where "AM_DIR = 2"
definition AM_MAT :: "32 word" where "AM_MAT = 4"
definition AM_REG :: "32 word" where "AM_REG = 8"
definition AM_NONE :: "32 word" where "AM_NONE = 0"
definition AM_ALL :: "32 word" where "AM_ALL = AM_IMM OR AM_DIR OR AM_MAT OR AM_REG"

definition one_operand_rule :: "string \<Rightarrow> opcode_mode" where
  "one_operand_rule n =
     \<lparr>rule_name = n, min_ops = 1, max_ops = 1, src_mask = AM_NONE,
      dst_mask = AM_DIR OR AM_MAT OR AM_REG\<rparr>"

fun opcode_rule :: "CommandsTable \<Rightarrow> opcode_mode option" where
  "opcode_rule MOV = Some \<lparr>rule_name = ''mov'', min_ops = 2, max_ops = 2, src_mask = AM_ALL,
                            dst_mask = AM_DIR OR AM_MAT OR AM_REG\<rparr>"
| "opcode_rule CMP = Some \<lparr>rule_name = ''cmp'', min_ops = 2, max_ops = 2, src_mask = AM_ALL,
                            dst_mask = AM_ALL\<rparr>"
| "opcode_rule ADD = Some \<lparr>rule_name = ''add'', min_ops = 2, max_ops = 2,
                            src_mask = AM_DIR OR AM_MAT OR AM_REG,
                            dst_mask = AM_DIR OR AM_MAT OR AM_REG\<rparr>"
| "opcode_rule SUB = Some \<lparr>rule_name = ''sub'', min_ops = 2, max_ops = 2,
                            src_mask = AM_DIR OR AM_MAT OR AM_REG,
                            dst_mask = AM_DIR OR AM_MAT OR AM_REG\<rparr>"
| "opcode_rule LEA = Some \<lparr>rule_name = ''lea'', min_ops = 2, max_ops = 2,
                            src_mask = AM_DIR OR AM_MAT,
                            dst_mask = AM_DIR OR AM_MAT OR AM_REG\<rparr>"
| "opcode_rule CLR = Some (one_operand_rule ''clr'')"
| "opcode_rule NOT_OP = Some (one_operand_rule ''not'')"
| "opcode_rule INC = Some (one_operand_rule ''inc'')"
| "opcode_rule DEC = Some (one_operand_rule ''dec'')"
| "opcode_rule JMP = Some (one_operand_rule ''jmp'')"
| "opcode_rule BNE = Some (one_operand_rule ''bne'')"
| "opcode_rule JSR = Some (one_operand_rule ''jsr'')"
| "opcode_rule RED = Some (one_operand_rule ''red'')"
| "opcode_rule PRN = Some \<lparr>rule_name = ''prn'', min_ops = 1, max_ops = 1, src_mask = AM_NONE,
                            dst_mask = AM_ALL\<rparr>"
| "opcode_rule RTS = Some \<lparr>rule_name = ''rts'', min_ops = 0, max_ops = 0, src_mask = AM_NONE,
                            dst_mask = AM_NONE\<rparr>"
| "opcode_rule STOP = Some \<lparr>rule_name = ''stop'', min_ops = 0, max_ops = 0, src_mask = AM_NONE,
                             dst_mask = AM_NONE\<rparr>"
| "opcode_rule _ = None"

fun mode_bit :: "addr_mode \<Rightarrow> 32 word" where
  "mode_bit ADDR_IMMEDIATE = AM_IMM"
| "mode_bit ADDR_DIRECT = AM_DIR"
| "mode_bit ADDR_MATRIX = AM_MAT"
| "mode_bit ADDR_REGISTER = AM_REG"
| "mode_bit ADDR_NONE = AM_NONE"

text \<open>\<open>validate_operand\<close>: \<open>True\<close> if an error was reported.\<close>

definition validate_operand :: "opcode_mode \<Rightarrow> addr_mode \<Rightarrow> bool \<Rightarrow> asm_state \<Rightarrow> bool \<times> asm_state" where
  "validate_operand rule mode is_source st =
     (let required_mask = (if is_source then src_mask rule else dst_mask rule) in
      if mode = ADDR_NONE then (True, diag_error_opmodes ''AS023'' st)
      else if required_mask AND mode_bit mode = 0 then (True, diag_error_opmodes ''AS022'' st)
      else (False, st))"

text \<open>\<open>validate_modes_for_opcode\<close>: 1 if any error was reported, 0 otherwise.\<close>

definition validate_modes_for_opcode ::
  "CommandsTable \<Rightarrow> nat \<Rightarrow> addr_mode \<Rightarrow> addr_mode \<Rightarrow> asm_state \<Rightarrow> int \<times> asm_state" where
  "validate_modes_for_opcode cmd operand_count src_mode dst_mode st =
     (case opcode_rule cmd of
        None \<Rightarrow> (1, diag_error_opmodes ''AS001'' st)
      | Some rule \<Rightarrow>
          if operand_count < min_ops rule \<or> operand_count > max_ops rule
          then (1, diag_error_opmodes ''AS003'' st)
          else if operand_count = 0 then (0, st)
          else if operand_count = 1 then
            (let st1 = (if src_mode \<noteq> ADDR_NONE then diag_error_opmodes ''AS024'' st else st) in
             case validate_operand rule dst_mode False st1 of
               (e, st2) \<Rightarrow> (if src_mode \<noteq> ADDR_NONE \<or> e then 1 else 0, st2))
          else if operand_count = 2 then
            (case validate_operand rule src_mode True st of
               (e1, st1) \<Rightarrow>
                 (case validate_operand rule dst_mode False st1 of
                    (e2, st2) \<Rightarrow> (if e1 \<or> e2 then 1 else 0, st2)))
          else (1, diag_error_opmodes ''AS003'' st))"

section \<open>The instruction encoder (words.c)\<close>

text \<open>
  \<open>put_word\<close> appends a word to the image. \<open>strncpy(mw->label, label, MAX_LABEL_LEN - 1)\<close>
  keeps at most 30 characters of the label.
\<close>

definition put_word ::
  "int \<Rightarrow> 32 word \<Rightarrow> are_t \<Rightarrow> string option \<Rightarrow> machine_word list \<Rightarrow> machine_word list" where
  "put_word ic payload are lbl head =
     head @ [\<lparr>mw_address = int_of_long ic,
              mw_label = (case lbl of None \<Rightarrow> [] | Some l \<Rightarrow> take 30 l),
              mw_value = ucast (payload AND 0xFF),
              mw_are = are_bits are\<rparr>]"

text \<open>First instruction word: \<open>[ opcode(4) | src(2) | dest(2) ]\<close>.\<close>

definition toBinaryFirstWord :: "CommandsTable \<Rightarrow> addr_mode \<Rightarrow> addr_mode \<Rightarrow> asm_state \<Rightarrow> asm_state" where
  "toBinaryFirstWord op src dest st =
     (let opc = opcode_value op AND 0x0F;
          s2 = to2bits src AND 0x03;
          d2 = to2bits dest AND 0x03;
          packed = (push_bit 4 opc OR push_bit 2 s2 OR d2) AND 0xFF
      in st\<lparr>ic_image := ic_image st @
                 [\<lparr>mw_address = int_of_long (IC st), mw_label = [],
                   mw_value = ucast packed, mw_are = are_bits ARE_ABS\<rparr>],
             IC := IC st + 1\<rparr>)"

text \<open>
  \<open>parse_imm8\<close>: \<open>#\<close>, then what \<open>strtol\<close> accepts, then only white space;
  \<open>IMM8_MIN = -128\<close>, \<open>IMM8_MAX = 127\<close>. \<open>None\<close> is the return value 0.
\<close>

definition parse_imm8 :: "string \<Rightarrow> int option" where
  "parse_imm8 tok =
     (if tok = [] \<or> peek tok \<noteq> CHR ''#'' then None
      else
        (case strtol (tl tok) of
           None \<Rightarrow> None
         | Some (v, e) \<Rightarrow>
             if dropWhile isspace e \<noteq> [] then None
             else if v < - 128 \<or> v > 127 then None
             else Some (int_of_long v)))"

definition emit_addr_word :: "string \<Rightarrow> 32 word \<Rightarrow> are_t \<Rightarrow> asm_state \<Rightarrow> asm_state" where
  "emit_addr_word symbol addr8 are st =
     st\<lparr>ic_image := put_word (IC st) addr8 are (Some symbol) (ic_image st), IC := IC st + 1\<rparr>"

definition emit_imm_word :: "int \<Rightarrow> asm_state \<Rightarrow> asm_state" where
  "emit_imm_word v st =
     st\<lparr>ic_image := put_word (IC st) (word_of_int v AND 0xFF) ARE_ABS None (ic_image st),
        IC := IC st + 1\<rparr>"

definition emit_regcode_pair :: "int \<Rightarrow> int \<Rightarrow> asm_state \<Rightarrow> asm_state" where
  "emit_regcode_pair rA rB st =
     st\<lparr>ic_image := put_word (IC st)
                       (push_bit 4 (word_of_int rA AND 0x0F) OR (word_of_int rB AND 0x0F))
                       ARE_ABS None (ic_image st),
        IC := IC st + 1\<rparr>"

definition emit_regcode_single_dest :: "int \<Rightarrow> asm_state \<Rightarrow> asm_state" where
  "emit_regcode_single_dest r st =
     st\<lparr>ic_image := put_word (IC st) (word_of_int r AND 0x0F) ARE_ABS None (ic_image st),
        IC := IC st + 1\<rparr>"

definition emit_regcode_single_src :: "int \<Rightarrow> asm_state \<Rightarrow> asm_state" where
  "emit_regcode_single_src r st =
     st\<lparr>ic_image := put_word (IC st) (push_bit 4 (word_of_int r AND 0x0F)) ARE_ABS None
                       (ic_image st),
        IC := IC st + 1\<rparr>"

text \<open>
  \<open>emit_symbol_addr\<close>: the word carries the symbol's name; if the name is in the table
  already, its payload is the low byte of the value and its ARE follows the kind.
\<close>

definition emit_symbol_addr :: "string \<Rightarrow> asm_state \<Rightarrow> asm_state" where
  "emit_symbol_addr name st =
     (case find_symbol (symtab st) name of
        None \<Rightarrow> emit_addr_word name 0 ARE_ABS st
      | Some cur \<Rightarrow>
          emit_addr_word name (word_of_int (sym_value cur) AND 0xFF)
            (case sym_type cur of
               EXTERNAL_SYMBOL \<Rightarrow> ARE_EXT
             | CODE_SYMBOL \<Rightarrow> ARE_REL
             | DATA_SYMBOL \<Rightarrow> ARE_REL
             | ENTRY_SYMBOL \<Rightarrow> ARE_REL
             | NONE_SYMBOL \<Rightarrow> ARE_ABS) st)"

text \<open>
  The two \<open>switch\<close> statements of \<open>process_commands_words\<close> (phases 4 and 5). The
  result \<open>False\<close> is the jump to \<open>out\<close> with \<open>rc = -1\<close>.
\<close>

definition encode_matrix_operand :: "string \<Rightarrow> asm_state \<Rightarrow> bool \<times> asm_state" where
  "encode_matrix_operand tok st =
     (case split_matrix_ex tok st of
        (None, st1) \<Rightarrow> (False, st1)
      | (Some (base, ra, rb), st1) \<Rightarrow>
          if reg_id ra < 0 \<or> reg_id rb < 0 then (False, diag_error_words ''AS023'' st1)
          else (True, emit_regcode_pair (reg_id ra) (reg_id rb) (emit_symbol_addr base st1)))"

definition encode_immediate_operand :: "string \<Rightarrow> asm_state \<Rightarrow> bool \<times> asm_state" where
  "encode_immediate_operand tok st =
     (case parse_imm8 tok of
        None \<Rightarrow> (False, diag_error_words ''AS023'' st)
      | Some v \<Rightarrow> (True, emit_imm_word v st))"

definition encode_source_operand :: "addr_mode \<Rightarrow> string \<Rightarrow> asm_state \<Rightarrow> bool \<times> asm_state" where
  "encode_source_operand src_mode src_tok st =
     (case src_mode of
        ADDR_IMMEDIATE \<Rightarrow> encode_immediate_operand src_tok st
      | ADDR_DIRECT \<Rightarrow> (True, emit_symbol_addr src_tok st)
      | ADDR_REGISTER \<Rightarrow>
          if reg_id src_tok < 0 then (False, diag_error_words ''AS023'' st)
          else (True, emit_regcode_single_src (reg_id src_tok) st)
      | ADDR_MATRIX \<Rightarrow> encode_matrix_operand src_tok st
      | ADDR_NONE \<Rightarrow> (True, st))"

definition encode_destination_operand :: "addr_mode \<Rightarrow> string \<Rightarrow> asm_state \<Rightarrow> bool \<times> asm_state" where
  "encode_destination_operand dst_mode tok st =
     (case dst_mode of
        ADDR_IMMEDIATE \<Rightarrow> encode_immediate_operand tok st
      | ADDR_DIRECT \<Rightarrow> (True, emit_symbol_addr tok st)
      | ADDR_REGISTER \<Rightarrow>
          if reg_id tok < 0 then (False, diag_error_words ''AS023'' st)
          else (True, emit_regcode_single_dest (reg_id tok) st)
      | ADDR_MATRIX \<Rightarrow> encode_matrix_operand tok st
      | ADDR_NONE \<Rightarrow> (True, st))"

text \<open>
  \<open>process_commands_words\<close>: the return code and the state with the words emitted and
  the errors reported. A token that is \<open>NULL\<close> in the source is never read there; the
  model reads it as the empty string.
\<close>

definition process_commands_words :: "CommandsTable \<Rightarrow> string \<Rightarrow> asm_state \<Rightarrow> int \<times> asm_state" where
  "process_commands_words cmd line st =
     (case split_operands line of
        (operand_count, src_tok, dst_tok) \<Rightarrow>
          (let src_mode = (if operand_count = 2 then get_addr_method src_tok else ADDR_NONE);
               dst_mode = (if operand_count = 2 then get_addr_method dst_tok
                           else if operand_count = 1 then get_addr_method src_tok
                           else ADDR_NONE);
               src = (case src_tok of None \<Rightarrow> [] | Some s \<Rightarrow> s);
               dst = (case dst_tok of None \<Rightarrow> [] | Some s \<Rightarrow> s)
           in case validate_modes_for_opcode cmd operand_count src_mode dst_mode st of
                (verr, st1) \<Rightarrow>
                  if verr \<noteq> 0 then (- 1, st1)
                  else
                    (let st2 = toBinaryFirstWord cmd src_mode dst_mode st1 in
                     if operand_count = 2 \<and> src_mode = ADDR_REGISTER \<and> dst_mode = ADDR_REGISTER
                     then
                       (if reg_id src < 0 \<or> reg_id dst < 0
                        then (- 1, diag_error_words ''AS023'' st2)
                        else (0, st2\<lparr>ic_image :=
                                      put_word (IC st2)
                                        (push_bit 4 (word_of_int (reg_id src) AND 0x0F)
                                           OR (word_of_int (reg_id dst) AND 0x0F))
                                        ARE_ABS None (ic_image st2),
                                    IC := IC st2 + 1\<rparr>))
                     else
                       (case (if operand_count = 2 then encode_source_operand src_mode src st2
                              else (True, st2)) of
                          (False, st3) \<Rightarrow> (- 1, st3)
                        | (True, st3) \<Rightarrow>
                            (case (if operand_count \<ge> 1
                                   then encode_destination_operand dst_mode
                                          (if operand_count = 2 then dst else src) st3
                                   else (True, st3)) of
                               (False, st4) \<Rightarrow> (- 1, st4)
                             | (True, st4) \<Rightarrow> (0, st4))))))"

section \<open>Directive parsers (functions.c)\<close>

text \<open>
  \<open>create_data_word(value, (*DC) + (*IC))\<close> followed by \<open>add_data_word_to_end\<close> and
  \<open>(*DC)++\<close>: the word is appended to the data image with the address \<open>DC + IC\<close> of
  the moment, and its value is the \<open>unsigned short\<close> conversion of \<open>value\<close>.
\<close>

definition create_data_word :: "int \<Rightarrow> int \<Rightarrow> data_word" where
  "create_data_word v address = \<lparr>dw_address = int_of_long address, dw_value = word_of_int v\<rparr>"

definition emit_data_word :: "int \<Rightarrow> asm_state \<Rightarrow> asm_state" where
  "emit_data_word v st =
     st\<lparr>data_img := data_img st @ [create_data_word v (DC st + IC st)], DC := DC st + 1\<rparr>"

text \<open>\<open>DATA_MIN = -128\<close>, \<open>DATA_MAX = 127\<close>.\<close>

definition in_data_range :: "int \<Rightarrow> bool" where
  "in_data_range v = (v \<ge> - 128 \<and> v \<le> 127)"

lemma strtol_digits_length: "strtol_digits s acc = (n, r) \<Longrightarrow> length r \<le> length s"
proof (induction s arbitrary: acc)
  case Nil
  then show ?case by simp
next
  case (Cons c cs)
  show ?case
  proof (cases "isdigit c")
    case True
    with Cons.prems have "strtol_digits cs (10 * acc + (int (of_char c) - 48)) = (n, r)"
      by simp
    from Cons.IH [OF this] show ?thesis
      by simp
  next
    case False
    with Cons.prems show ?thesis
      by auto
  qed
qed

lemma strtol_digits_shorter:
  "isdigit (peek s) \<Longrightarrow> strtol_digits s acc = (n, r) \<Longrightarrow> length r < length s"
  by (cases s) (auto simp: peek_def isdigit_def dest: strtol_digits_length split: if_splits)

lemma strtol_shorter: "strtol s = Some (v, r) \<Longrightarrow> length r < length s"
proof -
  assume a: "strtol s = Some (v, r)"
  define t where "t = dropWhile isspace s"
  define u where "u = (if peek t = CHR ''-'' \<or> peek t = CHR ''+'' then tl t else t)"
  from a have d: "isdigit (peek u)"
    by (auto simp: strtol_def Let_def t_def u_def split: if_splits prod.splits)
  from a obtain n where "strtol_digits u 0 = (n, r)"
    by (auto simp: strtol_def Let_def t_def u_def split: if_splits prod.splits)
  from strtol_digits_shorter [OF d this] have "length r < length u" .
  also have "length u \<le> length t"
    by (simp add: u_def)
  also have "length t \<le> length s"
    by (simp add: t_def length_dropWhile_le)
  finally show ?thesis .
qed

text \<open>
  The loop of \<open>process_data_directive_at\<close> with the check that follows it.
  \<open>seen_comma\<close> stands for \<open>last_comma != NULL\<close>.
\<close>

function data_loop :: "string \<Rightarrow> bool \<Rightarrow> bool \<Rightarrow> asm_state \<Rightarrow> int \<times> asm_state" where
  "data_loop p expect_value seen_comma st =
     (let p1 = skip_ws p in
      if p1 = [] then
        (if expect_value \<and> seen_comma then (- 1, diag_error_functions ''AS314'' st) else (0, st))
      else if expect_value then
        (if peek p1 = CHR '','' then (- 1, diag_error_functions ''AS310'' st)
         else
           (case strtol p1 of
              None \<Rightarrow> (- 1, diag_error_functions ''AS311'' st)
            | Some (v, endptr) \<Rightarrow>
                if \<not> in_data_range v then (- 1, diag_error_functions ''AS312'' st)
                else data_loop endptr False seen_comma (emit_data_word (int_of_long v) st)))
      else
        (if peek p1 \<noteq> CHR '','' then (- 1, diag_error_functions ''AS313'' st)
         else data_loop (tl p1) True True st))"
  by pat_completeness auto
termination
proof (relation "measure (\<lambda>(p, e, s, st). length p)")
  show "wf (measure (\<lambda>(p, e, s, st). length p))"
    by simp
next
  fix p :: string and expect_value seen_comma :: bool and st :: asm_state and p1 x v endptr
  assume "p1 = skip_ws p" and "strtol p1 = Some x" and "(v, endptr) = x"
  then have "length endptr < length p1" and "length p1 \<le> length p"
    using strtol_shorter [of p1 v endptr] by (simp_all add: skip_ws_def length_dropWhile_le)
  then show "((endptr, False, seen_comma, emit_data_word (int_of_long v) st),
              p, expect_value, seen_comma, st) \<in> measure (\<lambda>(p, e, s, st). length p)"
    by simp
next
  fix p :: string and expect_value seen_comma :: bool and st :: asm_state and p1
  assume "p1 = skip_ws p" and "p1 \<noteq> []"
  then have "length (tl p1) < length p1" and "length p1 \<le> length p"
    by (simp_all add: skip_ws_def length_dropWhile_le)
  then show "((tl p1, True, True, st), p, expect_value, seen_comma, st)
               \<in> measure (\<lambda>(p, e, s, st). length p)"
    by simp
qed

declare data_loop.simps [simp del]

definition process_data_directive_at :: "string \<Rightarrow> asm_state \<Rightarrow> int \<times> asm_state" where
  "process_data_directive_at line st =
     (case strstr (strip_inline_comment line) ''.data'' of
        None \<Rightarrow> (- 1, st)
      | Some directive_start \<Rightarrow> data_loop (drop 5 directive_start) True False st)"

text \<open>The character loop of \<open>process_string_directive_at\<close>: up to the closing quote.\<close>

fun string_loop :: "string \<Rightarrow> asm_state \<Rightarrow> string \<times> asm_state" where
  "string_loop [] st = ([], st)"
| "string_loop (c # cs) st =
     (if c = CHR 0x22 then (c # cs, st)
      else string_loop cs (emit_data_word (int (of_char c)) st))"

definition process_string_directive_at :: "string \<Rightarrow> asm_state \<Rightarrow> int \<times> asm_state" where
  "process_string_directive_at line st =
     (case strstr (strip_inline_comment line) ''.string'' of
        None \<Rightarrow> (- 1, st)
      | Some directive_start \<Rightarrow>
          (let p = skip_ws (drop 7 directive_start) in
           if peek p \<noteq> CHR 0x22 then (- 1, diag_error_functions ''AS320'' st)
           else
             (case string_loop (tl p) st of
                (p', st1) \<Rightarrow>
                  if peek p' \<noteq> CHR 0x22 then (- 1, diag_error_functions ''AS321'' st1)
                  else (0, emit_data_word 0 st1))))"

text \<open>
  \<open>parse_bracketed_pos_int\<close>: the dimension, converted to \<open>int\<close>, and the text after the
  closing bracket; \<open>None\<close> is the return value 0.
\<close>

definition parse_bracketed_pos_int :: "string \<Rightarrow> (int \<times> string) option" where
  "parse_bracketed_pos_int pp =
     (let p = skip_ws pp in
      if peek p \<noteq> CHR ''['' then None
      else
        (case strtol (skip_ws (tl p)) of
           None \<Rightarrow> None
         | Some (v, endptr) \<Rightarrow>
             if v \<le> 0 then None
             else
               (let q = skip_ws endptr in
                if peek q \<noteq> CHR '']'' then None
                else Some (int_of_long v, tl q))))"

text \<open>
  The initializer loop of \<open>process_matrix_directive_at\<close>: the return code (0 when the
  list was read to its end), the number of values produced, and the state.
\<close>

function mat_loop :: "string \<Rightarrow> bool \<Rightarrow> int \<Rightarrow> int \<Rightarrow> asm_state \<Rightarrow> int \<times> int \<times> asm_state" where
  "mat_loop p expect_value total_values produced st =
     (let p1 = skip_ws p in
      if p1 = [] then (0, produced, st)
      else if expect_value then
        (if peek p1 = CHR '','' then (- 1, produced, diag_error_functions ''AS304'' st)
         else
           (case strtol p1 of
              None \<Rightarrow> (- 1, produced, diag_error_functions ''AS305'' st)
            | Some (v, endptr) \<Rightarrow>
                if \<not> in_data_range v then (- 1, produced, diag_error_functions ''AS306'' st)
                else if produced \<ge> total_values
                then (- 1, produced, diag_error_functions ''AS307'' st)
                else mat_loop endptr False total_values (produced + 1)
                       (emit_data_word (int_of_long v) st)))
      else
        (if peek p1 = CHR '','' then
           (if skip_ws (tl p1) = [] then (- 1, produced, diag_error_functions ''AS309'' st)
            else mat_loop (tl p1) True total_values produced st)
         else (- 1, produced, diag_error_functions ''AS308'' st)))"
  by pat_completeness auto
termination
proof (relation "measure (\<lambda>(p, e, t, n, st). length p)")
  show "wf (measure (\<lambda>(p, e, t, n, st). length p))"
    by simp
next
  fix p :: string and expect_value :: bool and total_values produced :: int
    and st :: asm_state and p1 x v endptr
  assume "p1 = skip_ws p" and "strtol p1 = Some x" and "(v, endptr) = x"
  then have "length endptr < length p1" and "length p1 \<le> length p"
    using strtol_shorter [of p1 v endptr] by (simp_all add: skip_ws_def length_dropWhile_le)
  then show "((endptr, False, total_values, produced + 1, emit_data_word (int_of_long v) st),
              p, expect_value, total_values, produced, st)
               \<in> measure (\<lambda>(p, e, t, n, st). length p)"
    by simp
next
  fix p :: string and expect_value :: bool and total_values produced :: int
    and st :: asm_state and p1
  assume "p1 = skip_ws p" and "p1 \<noteq> []"
  then have "length (tl p1) < length p1" and "length p1 \<le> length p"
    by (simp_all add: skip_ws_def length_dropWhile_le)
  then show "((tl p1, True, total_values, produced, st),
              p, expect_value, total_values, produced, st)
               \<in> measure (\<lambda>(p, e, t, n, st). length p)"
    by simp
qed

declare mat_loop.simps [simp del]

text \<open>\<open>while (produced < total_values)\<close>: the cells without an initializer are 0.\<close>

fun fill_zeros :: "nat \<Rightarrow> asm_state \<Rightarrow> asm_state" where
  "fill_zeros 0 st = st"
| "fill_zeros (Suc n) st = fill_zeros n (emit_data_word 0 st)"

text \<open>
  \<open>process_matrix_directive_at\<close>. \<open>LONG_MAX_L = 100\<close>; the quotient is taken on
  positive operands only.
\<close>

definition process_matrix_directive_at :: "string \<Rightarrow> asm_state \<Rightarrow> int \<times> asm_state" where
  "process_matrix_directive_at line st =
     (case strstr (strip_inline_comment line) ''.mat'' of
        None \<Rightarrow> (- 1, st)
      | Some mat \<Rightarrow>
          (case parse_bracketed_pos_int (skip_ws (drop 4 mat)) of
             None \<Rightarrow> (- 1, diag_error_functions ''AS301'' st)
           | Some (rows, p1) \<Rightarrow>
               (case parse_bracketed_pos_int p1 of
                  None \<Rightarrow> (- 1, diag_error_functions ''AS302'' st)
                | Some (cols, p2) \<Rightarrow>
                    if rows > 0 \<and> cols > 0 \<and> rows > 100 div cols
                    then (- 1, diag_error_functions ''AS303'' st)
                    else
                      (let total_values = rows * cols in
                       case mat_loop (skip_ws p2) True total_values 0 st of
                         (rc, produced, st1) \<Rightarrow>
                           if rc \<noteq> 0 then (- 1, st1)
                           else (0, fill_zeros (nat (total_values - produced)) st1)))))"

definition process_data_string_mat :: "CommandsTable \<Rightarrow> string \<Rightarrow> asm_state \<Rightarrow> int \<times> asm_state" where
  "process_data_string_mat cmd line st =
     (case cmd of
        DATA \<Rightarrow> process_data_directive_at line st
      | STRING \<Rightarrow> process_string_directive_at line st
      | MATRIX \<Rightarrow> process_matrix_directive_at line st
      | _ \<Rightarrow> (- 1, st))"

section \<open>The first pass (first\_pass.c)\<close>

text \<open>
  \<open>check_sum_limit\<close>: \<open>OB_SUM_LIMIT = 255\<close>; the result is \<open>True\<close> (1) within the
  limit, and otherwise the error is reported and the result is \<open>False\<close> (0).
\<close>

definition check_sum_limit :: "int \<Rightarrow> int \<Rightarrow> asm_state \<Rightarrow> bool \<times> asm_state" where
  "check_sum_limit ic dc st =
     (if ic + dc < 255 then (True, st)
      else (False, diag_error_first_pass ''AS_SUM_GE_LIMIT'' st))"

definition is_register_name :: "string \<Rightarrow> bool" where
  "is_register_name str =
     (case str of
        [p, d] \<Rightarrow> (p = CHR ''r'' \<or> p = CHR ''R'') \<and>
                  48 \<le> (of_char d :: nat) \<and> (of_char d :: nat) \<le> 55
      | _ \<Rightarrow> False)"

definition is_alpha_num_label :: "string \<Rightarrow> bool" where
  "is_alpha_num_label str =
     (case str of [] \<Rightarrow> False | c # rest \<Rightarrow> isalpha c \<and> list_all isalnum rest)"

fun ieq :: "string \<Rightarrow> string \<Rightarrow> bool" where
  "ieq [] [] = True"
| "ieq (a # as) (b # bs) = (tolower a = tolower b \<and> ieq as bs)"
| "ieq _ _ = False"

text \<open>The lookup tables of \<open>match_instruction\<close> and \<open>match_directive\<close>, searched in order.\<close>

fun match_table :: "(string \<times> CommandsTable) list \<Rightarrow> string \<Rightarrow> CommandsTable" where
  "match_table [] token = UNDEFINED"
| "match_table ((name, cmd) # rest) token =
     (if ieq token name then cmd else match_table rest token)"

definition match_instruction :: "string \<Rightarrow> CommandsTable" where
  "match_instruction token =
     match_table
       [(''mov'', MOV), (''cmp'', CMP), (''add'', ADD), (''sub'', SUB),
        (''not'', NOT_OP), (''clr'', CLR), (''lea'', LEA), (''inc'', INC),
        (''dec'', DEC), (''jmp'', JMP), (''bne'', BNE), (''red'', RED),
        (''prn'', PRN), (''jsr'', JSR), (''rts'', RTS), (''stop'', STOP)] token"

definition match_directive :: "string \<Rightarrow> CommandsTable" where
  "match_directive token =
     match_table
       [(''data'', DATA), (''string'', STRING), (''mat'', MATRIX),
        (''entry'', ENTRY), (''extern'', EXTERN)] token"

definition is_reserved_mnemonic :: "string \<Rightarrow> bool" where
  "is_reserved_mnemonic token =
     (token \<noteq> [] \<and>
      (match_instruction token \<noteq> UNDEFINED \<or> match_directive token \<noteq> UNDEFINED \<or>
       is_register_name token))"

definition validate_label_name :: "string \<Rightarrow> asm_state \<Rightarrow> bool \<times> asm_state" where
  "validate_label_name label_name st =
     (if label_name = [] then (False, diag_error_first_pass ''AS001'' st)
      else if \<not> is_alpha_num_label label_name then (False, diag_error_first_pass ''AS001'' st)
      else if is_reserved_mnemonic label_name then (False, diag_error_first_pass ''AS015'' st)
      else if is_register_name label_name then (False, diag_error_first_pass ''AS016'' st)
      else (True, st))"

text \<open>
  \<open>is_label_definition\<close>: the return value, the label it allocated (set even when the
  validation of the name fails), and the state. \<open>MAX_LABEL_LEN = 31\<close>.
\<close>

definition is_label_definition :: "string \<Rightarrow> asm_state \<Rightarrow> bool \<times> string option \<times> asm_state" where
  "is_label_definition line_start st =
     (let p = dropWhile isspace line_start;
          tok = takeWhile (\<lambda>c. \<not> isspace c \<and> c \<noteq> CHR '';'' \<and> c \<noteq> CHR '':'') p;
          q = drop (length tok) p
      in if peek q \<noteq> CHR '':'' then (False, None, st)
         else if length tok > 31 then (False, None, diag_error_first_pass ''AS001'' st)
         else (case validate_label_name tok st of (ok, st1) \<Rightarrow> (ok, Some tok, st1)))"

text \<open>
  The first token of a line, in lower case: up to white space, \<open>,\<close>, \<open>[\<close> or \<open>;\<close>, and
  at most \<open>TOK_MAX_LEN - 1 = 31\<close> characters.
\<close>

definition command_token_chars :: "string \<Rightarrow> string" where
  "command_token_chars p =
     take 31 (takeWhile (\<lambda>c. \<not> isspace c \<and> c \<noteq> CHR '','' \<and> c \<noteq> CHR ''['' \<and> c \<noteq> CHR '';'') p)"

definition get_command_type :: "string \<Rightarrow> asm_state \<Rightarrow> CommandsTable \<times> asm_state" where
  "get_command_type line st =
     (let ptr = dropWhile isspace line in
      if ptr = [] \<or> peek ptr = CHR '';'' then (UNDEFINED, st)
      else
        (let token = map tolower (command_token_chars ptr) in
         if token = [] then (UNDEFINED, diag_error_first_pass ''AS002'' st)
         else
           (let command_token = (if peek token = CHR ''.'' then tl token else token) in
            if match_instruction token \<noteq> UNDEFINED then (match_instruction token, st)
            else if match_directive command_token \<noteq> UNDEFINED
            then (match_directive command_token, st)
            else (UNDEFINED, diag_error_first_pass ''AS004'' st))))"

fun determine_symbol_type :: "CommandsTable \<Rightarrow> symbol_type" where
  "determine_symbol_type DATA = DATA_SYMBOL"
| "determine_symbol_type STRING = DATA_SYMBOL"
| "determine_symbol_type MATRIX = DATA_SYMBOL"
| "determine_symbol_type ENTRY = ENTRY_SYMBOL"
| "determine_symbol_type EXTERN = EXTERNAL_SYMBOL"
| "determine_symbol_type _ = CODE_SYMBOL"

text \<open>
  \<open>add_table_item\<close> (functions.c): an existing key is updated, a new key is inserted
  at the head of the list.
\<close>

fun update_table_item :: "symbol_table list \<Rightarrow> string \<Rightarrow> int \<Rightarrow> symbol_type \<Rightarrow> symbol_table list" where
  "update_table_item [] k v t = []"
| "update_table_item (cur # rest) k v t =
     (if sym_key cur = k then cur\<lparr>sym_value := v, sym_type := t\<rparr> # rest
      else cur # update_table_item rest k v t)"

definition add_table_item :: "symbol_table list \<Rightarrow> string \<Rightarrow> int \<Rightarrow> symbol_type \<Rightarrow> symbol_table list" where
  "add_table_item tab k v t =
     (if find_symbol tab k \<noteq> None then update_table_item tab k v t
      else \<lparr>sym_key = k, sym_value = v, sym_type = t\<rparr> # tab)"

definition process_valid_label :: "string \<Rightarrow> symbol_type \<Rightarrow> asm_state \<Rightarrow> asm_state" where
  "process_valid_label label_name sym_t st =
     (if sym_t = CODE_SYMBOL
      then st\<lparr>symtab := add_table_item (symtab st) label_name (IC st) CODE_SYMBOL\<rparr>
      else if sym_t = DATA_SYMBOL
      then st\<lparr>symtab := add_table_item (symtab st) label_name (IC st + DC st) DATA_SYMBOL\<rparr>
      else st)"

text \<open>
  \<open>add_entry\<close> and \<open>add_extern\<close> (functions.c): a new node at the end of the list;
  \<open>strncpy\<close> keeps at most 30 characters of the label.
\<close>

definition add_entry :: "entry_list list \<Rightarrow> string \<Rightarrow> int \<Rightarrow> entry_list list" where
  "add_entry head lbl addr = head @ [\<lparr>ent_labels = take 30 lbl, ent_addr = addr\<rparr>]"

definition add_extern :: "extern_list list \<Rightarrow> string \<Rightarrow> extern_list list" where
  "add_extern head lbl = head @ [\<lparr>ext_labels = take 30 lbl, ext_addr_head = []\<rparr>]"

text \<open>
  \<open>handle_directive_argument\<close>, called with the diagnostics of first\_pass.c.
  \<open>is_entry\<close> stands for \<open>strcmp(directive_name, "entry") == 0\<close>.
\<close>

definition handle_directive_argument :: "bool \<Rightarrow> string \<Rightarrow> asm_state \<Rightarrow> int \<times> asm_state" where
  "handle_directive_argument is_entry arg st =
     (let p = dropWhile isspace arg in
      if p = [] \<or> peek p = CHR '';''
      then (1, diag_error_first_pass (if is_entry then ''AS011'' else ''AS012'') st)
      else
        (let lbl = takeWhile (\<lambda>c. \<not> isspace c \<and> c \<noteq> CHR '';'' \<and> c \<noteq> CHR '','') p;
             q = drop (length lbl) p
         in if length lbl = 0
            then (1, diag_error_first_pass (if is_entry then ''AS011'' else ''AS012'') st)
            else if length lbl > 31 then (1, diag_error_first_pass ''AS013'' st)
            else if \<not> is_alpha_num_label lbl \<or> is_reserved_mnemonic lbl \<or> is_register_name lbl
            then (1, diag_error_first_pass ''AS014'' st)
            else
              (let r = dropWhile isspace q in
               if r \<noteq> [] \<and> peek r \<noteq> CHR '';'' then (1, diag_error_first_pass ''AS015'' st)
               else if is_entry then (0, st\<lparr>ent_list := add_entry (ent_list st) lbl 0\<rparr>)
               else (0, st\<lparr>ext_list := add_extern (ext_list st) lbl\<rparr>))))"

text \<open>
  \<open>initialize_file_processing\<close>, and the state in which \<open>main\<close> starts the first file:
  no errors reported yet and no output written.
\<close>

definition initialize_file_processing :: "asm_state \<Rightarrow> asm_state" where
  "initialize_file_processing st = st\<lparr>symtab := [], IC := 100, DC := 0\<rparr>"

definition main_init :: asm_state where
  "main_init =
     \<lparr>IC = 100, DC = 0, symtab = [], ic_image = [], data_img = [], ent_list = [],
      ext_list = [], first_pass_errs = [], functions_errs = [], words_errs = [],
      opmodes_errs = [], second_pass_errs = [], ob_file = None, ent_file = None,
      ext_file = None\<rparr>"

text \<open>
  The test \<open>colon_pos && colon_pos < space_pos\<close> of the first pass: a colon before the
  first blank, tab or semicolon.
\<close>

definition colon_before_space :: "string \<Rightarrow> bool" where
  "colon_before_space current_pos =
     (peek (dropWhile (\<lambda>c. c \<noteq> CHR '' '' \<and> c \<noteq> CHR 0x09 \<and> c \<noteq> CHR '';'' \<and> c \<noteq> CHR '':'')
              current_pos) = CHR '':'')"

text \<open>
  The instruction and directive processing of one line (phase 5). The return code of
  \<open>process_commands_words\<close> is not used by the source.
\<close>

definition dispatch_command ::
  "CommandsTable \<Rightarrow> string \<Rightarrow> string \<Rightarrow> bool \<times> asm_state \<Rightarrow> bool \<times> asm_state" where
  "dispatch_command cmd current_pos token_end hs =
     (case hs of
        (had_error, st) \<Rightarrow>
          if opcode_rule cmd \<noteq> None then
            (case process_commands_words cmd current_pos st of
               (rc, st1) \<Rightarrow>
                 (case check_sum_limit (IC st1) (DC st1) st1 of
                    (ok, st2) \<Rightarrow> (had_error \<or> \<not> ok, st2)))
          else if cmd = DATA \<or> cmd = STRING \<or> cmd = MATRIX then
            (case process_data_string_mat cmd current_pos st of
               (rc, st1) \<Rightarrow>
                 (case check_sum_limit (IC st1) (DC st1) st1 of
                    (ok, st2) \<Rightarrow> (had_error \<or> rc \<noteq> 0 \<or> \<not> ok, st2)))
          else if cmd = ENTRY then
            (had_error, snd (handle_directive_argument True (dropWhile isspace token_end) st))
          else if cmd = EXTERN then
            (had_error, snd (handle_directive_argument False (dropWhile isspace token_end) st))
          else (had_error, st))"

text \<open>
  The body of the line loop of \<open>first_pass\<close>, on one buffer filled by \<open>fgets\<close>. The
  pair is the local flag \<open>had_error\<close> and the state.
\<close>

definition first_pass_line :: "string \<Rightarrow> bool \<times> asm_state \<Rightarrow> bool \<times> asm_state" where
  "first_pass_line raw hs =
     (case hs of
        (had_error, st) \<Rightarrow>
          (let line_buffer = c_str raw;
               start = dropWhile isspace line_buffer
           in if start = [] \<or> peek start = CHR '';'' then (had_error, st)
              else
                (case is_label_definition start st of
                   (has_label, label_out, st1) \<Rightarrow>
                     (let bad_colon = (\<not> has_label \<and> colon_before_space start);
                          st2 = (if bad_colon then diag_error_first_pass ''AS001'' st1 else st1);
                          current_pos =
                            (if has_label
                             then dropWhile isspace (drop 1 (dropWhile (\<lambda>c. c \<noteq> CHR '':'') start))
                             else start);
                          duplicate =
                            (has_label \<and>
                             (case label_out of
                                None \<Rightarrow> False
                              | Some l \<Rightarrow> find_symbol (symtab st2) l \<noteq> None));
                          st3 = (if duplicate then diag_error_first_pass ''AS020'' st2 else st2);
                          label_name = (if duplicate then None else label_out);
                          had1 = (had_error \<or> bad_colon \<or> duplicate);
                          token_end = drop (length (command_token_chars current_pos)) current_pos
                      in case get_command_type current_pos st3 of
                           (cmd, st4) \<Rightarrow>
                             if cmd = UNDEFINED
                             then (True, diag_error_first_pass ''AS002'' st4)
                             else
                               (let st5 =
                                      (case label_name of
                                         None \<Rightarrow> st4
                                       | Some l \<Rightarrow>
                                           if has_label \<and> cmd \<noteq> ENTRY \<and> cmd \<noteq> EXTERN
                                           then process_valid_label l (determine_symbol_type cmd) st4
                                           else st4)
                                in dispatch_command cmd current_pos token_end (had1, st5))))))"

text \<open>
  \<open>first_pass\<close>. \<open>source\<close> is the sequence of buffers that \<open>fgets\<close> reads from the
  \<open>.am\<close> file, or \<open>None\<close> if the file cannot be opened. The second pass is called with
  \<open>*IC_out - IC_INIT_VALUE\<close> as its \<open>IC_final\<close>.
\<close>

definition first_pass :: "string \<Rightarrow> string list option \<Rightarrow> asm_state \<Rightarrow> int \<times> asm_state" where
  "first_pass file_stem source st =
     (case source of
        None \<Rightarrow> (1, diag_error_first_pass ''AS040'' st)
      | Some lines \<Rightarrow>
          (case foldl (\<lambda>hs raw. first_pass_line raw hs) (False, initialize_file_processing st) lines of
             (had_error, st1) \<Rightarrow>
               if first_pass_errs st1 = [] \<and> \<not> had_error
               then (0, snd (second_pass file_stem (IC st1 - 100) (DC st1) st1))
               else (1, st1)))"

section \<open>Notions used to state the properties\<close>

text \<open>
  The decoding the specification speaks of: digit mapping a=0, b=1, c=2, d=3, the
  most significant digit first. No other character is a digit, and a string with
  such a character decodes to nothing.
\<close>

definition spec_letter_digit :: "char \<Rightarrow> nat option" where
  "spec_letter_digit c =
     (if c = CHR ''a'' then Some 0 else if c = CHR ''b'' then Some 1
      else if c = CHR ''c'' then Some 2 else if c = CHR ''d'' then Some 3
      else None)"

fun spec_base4_decode_from :: "nat \<Rightarrow> string \<Rightarrow> nat option" where
  "spec_base4_decode_from acc [] = Some acc"
| "spec_base4_decode_from acc (c # rest) =
     (case spec_letter_digit c of
        None \<Rightarrow> None
      | Some d \<Rightarrow> spec_base4_decode_from (4 * acc + d) rest)"

definition spec_base4_decode :: "string \<Rightarrow> nat option" where
  "spec_base4_decode s = spec_base4_decode_from 0 s"

text \<open>The letters the loop has written, as a list: the low \<open>n\<close> base-4 digits of \<open>v\<close>.\<close>

fun low_digits :: "nat \<Rightarrow> 32 word \<Rightarrow> string" where
  "low_digits 0 v = []"
| "low_digits (Suc n) v = low_digits n (drop_bit 2 v) @ [quad_letter (v AND 3)]"

text \<open>The position of the extern declaration a label resolves to: the first with that name.\<close>

fun first_extern :: "extern_list list \<Rightarrow> string \<Rightarrow> nat option" where
  "first_extern [] lbl = None"
| "first_extern (e # es) lbl =
     (if ext_labels e = lbl then Some 0 else map_option Suc (first_extern es lbl))"

text \<open>
  A word whose label reference is resolved through the extern declaration at
  position \<open>j\<close>: the label is in no symbol-table entry and \<open>j\<close> is the first extern
  with that name.
\<close>

definition uses_extern :: "symbol_table list \<Rightarrow> extern_list list \<Rightarrow> nat \<Rightarrow> machine_word \<Rightarrow> bool" where
  "uses_extern tab exts j mw =
     (mw_label mw \<noteq> [] \<and> find_symbol tab (mw_label mw) = None \<and>
      first_extern exts (mw_label mw) = Some j)"

text \<open>The base-4 digits of a value, least significant first, without leading zeros.\<close>

function lsd_digits :: "32 word \<Rightarrow> string" where
  "lsd_digits v = (if v = 0 then [] else quad_letter (v AND 3) # lsd_digits (drop_bit 2 v))"
  by pat_completeness auto
termination
proof (relation "measure unat")
  show "wf (measure unat)"
    by simp
next
  fix v :: "32 word"
  assume "v \<noteq> 0"
  then have "0 < unat v"
    by (simp add: unat_gt_0)
  then have "unat v div 4 < unat v"
    by simp
  then show "(drop_bit 2 v, v) \<in> measure unat"
    by (simp add: unat_drop_bit_eq drop_bit_eq_div unat_div)
qed

declare lsd_digits.simps [simp del]




text \<open>
  The state of the size check during the first pass: since the pass started with the
  errors \<open>errs\<close>, either \<open>IC + DC\<close> is below \<open>OB_SUM_LIMIT = 255\<close> or \<open>AS_SUM_GE_LIMIT\<close> has
  been reported; and the object file is still \<open>ob\<close>.
\<close>

definition sum_checked :: "string list \<Rightarrow> string option \<Rightarrow> asm_state \<Rightarrow> bool" where
  "sum_checked errs ob s \<longleftrightarrow>
     (\<exists>es. first_pass_errs s = errs @ es \<and>
           (IC s + DC s < 255 \<or> ''AS_SUM_GE_LIMIT'' \<in> set es)) \<and>
     ob_file s = ob"

section \<open>Properties of the base-4 output\<close>

lemma unat_drop_bit_2: "unat (drop_bit 2 (v::32 word)) = unat v div 4"
  by (simp add: unat_drop_bit_eq drop_bit_eq_div unat_div)

lemma unat_and_3: "unat ((v::32 word) AND 3) = unat v mod 4"
proof -
  have "(3::32 word) = mask 2"
    by (simp add: mask_eq_exp_minus_1)
  then have "v AND 3 = take_bit 2 v"
    by (simp add: take_bit_eq_mask)
  then show ?thesis
    by (simp add: unsigned_take_bit_eq take_bit_eq_mod unat_mod)
qed

lemma and_3_idem: "((v::32 word) AND 3) AND 3 = v AND 3"
  by (simp add: and.assoc)

lemma char_of_letters:
  "char_of (97::nat) = CHR ''a''" "char_of (98::nat) = CHR ''b''"
  "char_of (99::nat) = CHR ''c''" "char_of (100::nat) = CHR ''d''"
  by code_simp+

lemma quad_letter_cases:
  "quad_letter d =
     (if unat d mod 4 = 0 then CHR ''a'' else if unat d mod 4 = 1 then CHR ''b''
      else if unat d mod 4 = 2 then CHR ''c'' else CHR ''d'')"
proof -
  have "unat d mod 4 < 4"
    by simp
  then consider "unat d mod 4 = 0" | "unat d mod 4 = 1" | "unat d mod 4 = 2" | "unat d mod 4 = 3"
    by linarith
  then show ?thesis
    by cases (simp_all add: quad_letter_def unat_and_3 char_of_letters)
qed

lemma digit_of_quad_letter: "spec_letter_digit (quad_letter d) = Some (unat d mod 4)"
proof -
  have "unat d mod 4 < 4"
    by simp
  then consider "unat d mod 4 = 0" | "unat d mod 4 = 1" | "unat d mod 4 = 2" | "unat d mod 4 = 3"
    by linarith
  then show ?thesis
    by cases (simp_all add: quad_letter_cases spec_letter_digit_def)
qed

lemma quad_letter_in_letters:
  "quad_letter d \<in> {CHR ''a'', CHR ''b'', CHR ''c'', CHR ''d''}"
  by (simp add: quad_letter_cases)

lemma length_low_digits: "length (low_digits n v) = n"
  by (induction n arbitrary: v) simp_all

lemma to_base4_loop_eq:
  "n \<le> length out \<Longrightarrow> to_base4_loop n v out = low_digits n v @ drop n out"
proof (induction n arbitrary: v out)
  case 0
  then show ?case by simp
next
  case (Suc n)
  then have "n < length out"
    by simp
  then have "drop n (out[n := quad_letter (v AND 3)]) = quad_letter (v AND 3) # drop (Suc n) out"
    by (simp add: Cons_nth_drop_Suc [symmetric] upd_conv_take_nth_drop)
  with Suc show ?case
    by simp
qed

lemma set_low_digits: "set (low_digits n v) \<subseteq> {CHR ''a'', CHR ''b'', CHR ''c'', CHR ''d''}"
proof (induction n arbitrary: v)
  case 0
  then show ?case by simp
next
  case (Suc n)
  then show ?case
    using quad_letter_in_letters [of "v AND 3"] by auto
qed

lemma decode_from_append:
  "spec_base4_decode_from acc (s @ [c]) =
     (case spec_base4_decode_from acc s of
        None \<Rightarrow> None
      | Some a \<Rightarrow> map_option (\<lambda>d. 4 * a + d) (spec_letter_digit c))"
  by (induction s arbitrary: acc) (simp_all split: option.splits)

lemma decode_append:
  "spec_base4_decode s = Some a \<Longrightarrow> spec_letter_digit c = Some d
     \<Longrightarrow> spec_base4_decode (s @ [c]) = Some (4 * a + d)"
  by (simp add: spec_base4_decode_def decode_from_append)

lemma decode_low_digits: "spec_base4_decode (low_digits n v) = Some (unat v mod 4 ^ n)"
proof (induction n arbitrary: v)
  case 0
  then show ?case by (simp add: spec_base4_decode_def)
next
  case (Suc n)
  have "spec_base4_decode (low_digits (Suc n) v)
      = Some (4 * ((unat v div 4) mod 4 ^ n) + unat v mod 4)"
    using decode_append [OF Suc.IH [of "drop_bit 2 v"] digit_of_quad_letter [of "v AND 3"]]
    by (simp add: unat_drop_bit_2 unat_and_3)
  also have "4 * ((unat v div 4) mod 4 ^ n) + unat v mod 4 = unat v mod 4 ^ Suc n"
    by (simp add: mod_mult2_eq add.commute)
  finally show ?case .
qed

text \<open>
  C8. For every width \<open>w > 0\<close> and every value \<open>v\<close> with \<open>0 \<le> v < 4^w\<close>, the form
  produced by \<open>to_base4_letters\<close> has \<open>w\<close> letters, all of them among a, b, c, d, and
  decoding it (a=0, b=1, c=2, d=3, most significant digit first) recovers \<open>v\<close>.
\<close>

theorem base4_round_trip:
  assumes "0 < w" and "unat v < 4 ^ nat w"
  shows "\<exists>s. to_base4_letters v w = Some s \<and> length s = nat w \<and>
             set s \<subseteq> {CHR ''a'', CHR ''b'', CHR ''c'', CHR ''d''} \<and>
             spec_base4_decode s = Some (unat v)"
proof -
  have "to_base4_loop (nat w) v (replicate (nat w) (CHR 0x00)) = low_digits (nat w) v"
    by (simp add: to_base4_loop_eq)
  with assms show ?thesis
    using set_low_digits [of "nat w" v]
    by (simp add: to_base4_letters_def length_low_digits decode_low_digits)
qed

theorem base4_round_trip_witness:
  "to_base4_letters 100 4 = Some ''bcba'' \<and> spec_base4_decode ''bcba'' = Some 100 \<and>
   to_base4_letters 255 4 = Some ''dddd'' \<and> spec_base4_decode ''dddd'' = Some 255"
proof -
  have "(0::int) < 4" and "unat (100::32 word) < 4 ^ nat 4"
    by simp_all
  from base4_round_trip [OF this]
  obtain s where s: "to_base4_letters 100 4 = Some s" "spec_base4_decode s = Some (unat (100::32 word))"
    by blast
  moreover have "to_base4_letters 100 4 = Some ''bcba''"
    by code_simp
  moreover have "(0::int) < 4" and "unat (255::32 word) < 4 ^ nat 4"
    by simp_all
  from base4_round_trip [OF this]
  obtain t where t: "to_base4_letters 255 4 = Some t" "spec_base4_decode t = Some (unat (255::32 word))"
    by blast
  moreover have "to_base4_letters 255 4 = Some ''dddd''"
    by code_simp
  ultimately show ?thesis
    by simp
qed
section \<open>Properties of label resolution\<close>

lemma search_extern_list_effect:
  "search_extern_list es lbl a =
     (case first_extern es lbl of
        None \<Rightarrow> (False, es)
      | Some j \<Rightarrow> (True, es[j := (es ! j)\<lparr>ext_addr_head := ext_addr_head (es ! j) @ [a]\<rparr>]))"
  by (induction es) (auto simp: add_to_extern_usage_list_def split: option.splits)

lemma first_extern_None: "first_extern es lbl = None \<longleftrightarrow> lbl \<notin> set (map ext_labels es)"
  by (induction es) auto

lemma first_extern_Some:
  "first_extern es lbl = Some j \<Longrightarrow> j < length es \<and> ext_labels (es ! j) = lbl"
  by (induction es arbitrary: j) (auto split: if_splits)

lemma first_extern_cong:
  "map ext_labels es' = map ext_labels es \<Longrightarrow> first_extern es' lbl = first_extern es lbl"
proof (induction es arbitrary: es')
  case Nil
  then show ?case by simp
next
  case (Cons e es)
  then obtain e' es1 where "es' = e' # es1" and "ext_labels e' = ext_labels e"
    and "map ext_labels es1 = map ext_labels es"
    by (cases es') auto
  then show ?case
    using Cons.IH [of es1] by simp
qed

lemma resolve_word_frame:
  "resolve_word mw tab exts = (mw', exts') \<Longrightarrow>
     mw_address mw' = mw_address mw \<and> mw_label mw' = mw_label mw"
  by (auto simp: resolve_word_def Let_def search_extern_list_effect
           split: if_splits option.splits)

lemma resolve_word_externs:
  "resolve_word mw tab exts = (mw', exts') \<Longrightarrow>
     length exts' = length exts \<and> map ext_labels exts' = map ext_labels exts \<and>
     (\<forall>j < length exts. ext_addr_head (exts' ! j) =
        ext_addr_head (exts ! j) @ (if uses_extern tab exts j mw then [mw_address mw] else []))"
proof -
  assume r: "resolve_word mw tab exts = (mw', exts')"
  have upd: "map ext_labels (exts[j := (exts ! j)\<lparr>ext_addr_head := u\<rparr>]) = map ext_labels exts"
    if "j < length exts" for j u
    using that by (simp add: map_update list_update_same_conv)
  show ?thesis
  proof (cases "mw_label mw \<noteq> [] \<and> find_symbol tab (mw_label mw) = None")
    case False
    with r show ?thesis
      by (auto simp: resolve_word_def Let_def uses_extern_def split: if_splits option.splits)
  next
    case True
    show ?thesis
    proof (cases "first_extern exts (mw_label mw)")
      case None
      with True r show ?thesis
        by (auto simp: resolve_word_def Let_def uses_extern_def search_extern_list_effect)
    next
      case (Some k)
      then have k: "k < length exts"
        by (simp add: first_extern_Some)
      from True Some r
      have e: "exts' = exts[k := (exts ! k)\<lparr>ext_addr_head := ext_addr_head (exts ! k) @ [mw_address mw]\<rparr>]"
        by (auto simp: resolve_word_def Let_def search_extern_list_effect)
      show ?thesis
        using True Some k
        by (auto simp: e upd uses_extern_def nth_list_update)
    qed
  qed
qed

lemma resolve_word_unmatched:
  assumes "resolve_word mw tab exts = (mw', exts')"
    and "mw_label mw \<noteq> []"
    and "find_symbol tab (mw_label mw) = None"
    and "first_extern exts (mw_label mw) = None"
  shows "mw_are mw' = mw_are mw \<and> mw_value mw' = 0 \<and> exts' = exts"
  using assms by (auto simp: resolve_word_def Let_def search_extern_list_effect)

lemma resolve_word_extern:
  assumes "resolve_word mw tab exts = (mw', exts')"
    and "mw_label mw \<noteq> []"
    and "find_symbol tab (mw_label mw) = None"
    and "first_extern exts (mw_label mw) = Some j"
  shows "mw_are mw' = are_bits ARE_EXT \<and> mw_value mw' = 0"
  using assms by (auto simp: resolve_word_def Let_def search_extern_list_effect)

lemma resolve_labels_length:
  "resolve_labels_in_place code tab exts = (code', exts') \<Longrightarrow> length code' = length code"
  by (induction code arbitrary: exts code' exts') (auto split: prod.splits)

text \<open>
  The extern list after the pass: the declarations are the same, and each usage list
  has grown by the addresses of the words that resolve to it, in code order.
\<close>

lemma resolve_labels_externs:
  "resolve_labels_in_place code tab exts = (code', exts') \<Longrightarrow>
     length exts' = length exts \<and> map ext_labels exts' = map ext_labels exts \<and>
     (\<forall>j < length exts. ext_addr_head (exts' ! j) =
        ext_addr_head (exts ! j) @ map mw_address (filter (uses_extern tab exts j) code))"
proof (induction code arbitrary: exts code' exts')
  case Nil
  then show ?case by simp
next
  case (Cons mw rest)
  from Cons.prems obtain mw1 exts1 rest1 where
    w: "resolve_word mw tab exts = (mw1, exts1)" and
    r: "resolve_labels_in_place rest tab exts1 = (rest1, exts')"
    by (auto split: prod.splits)
  note W = resolve_word_externs [OF w]
  note R = Cons.IH [OF r]
  have same: "uses_extern tab exts1 j = uses_extern tab exts j" for j
    using W first_extern_cong [of exts1 exts]
    by (auto simp: uses_extern_def fun_eq_iff)
  show ?case
    using W R by (auto simp: same)
qed

text \<open>Each word is resolved against the symbol table and the declarations of the extern list.\<close>

lemma resolve_labels_nth:
  "resolve_labels_in_place code tab exts = (code', exts') \<Longrightarrow> i < length code \<Longrightarrow>
     \<exists>exts1 exts2. map ext_labels exts1 = map ext_labels exts \<and>
        resolve_word (code ! i) tab exts1 = (code' ! i, exts2)"
proof (induction code arbitrary: exts code' exts' i)
  case Nil
  then show ?case by simp
next
  case (Cons mw rest)
  from Cons.prems obtain mw1 exts1 rest1 where
    w: "resolve_word mw tab exts = (mw1, exts1)" and
    r: "resolve_labels_in_place rest tab exts1 = (rest1, exts')" and
    c: "code' = mw1 # rest1"
    by (auto split: prod.splits)
  show ?case
  proof (cases i)
    case 0
    with w c show ?thesis by auto
  next
    case (Suc k)
    with Cons.prems have "k < length rest"
      by simp
    from Cons.IH [OF r this] obtain e1 e2 where
      "map ext_labels e1 = map ext_labels exts1" "resolve_word (rest ! k) tab e1 = (rest1 ! k, e2)"
      by blast
    with resolve_word_externs [OF w] Suc c show ?thesis
      by auto
  qed
qed

lemma count_list_map_filter:
  assumes "distinct (map f xs)" and "x \<in> set xs"
  shows "count_list (map f (filter P xs)) (f x) = (if P x then 1 else 0)"
  using assms
proof (induction xs)
  case Nil
  then show ?case by simp
next
  case (Cons y ys)
  have d: "distinct (map f ys)" and ny: "f y \<notin> f ` set ys"
    using Cons.prems(1) by simp_all
  have notin: "count_list (map f (filter P ys)) (f y) = 0"
    using ny by (auto simp: count_list_0_iff)
  show ?case
  proof (cases "x = y")
    case True
    then show ?thesis
      using notin by simp
  next
    case False
    with Cons.prems(2) have xs: "x \<in> set ys"
      by simp
    with ny have "f x \<noteq> f y"
      by (metis imageI)
    with Cons.IH [OF d xs] show ?thesis
      by simp
  qed
qed

text \<open>
  C1 (as amended). In the second pass, a code-image word whose label-reference field
  is non-empty and whose label matches neither a symbol-table entry nor an extern-list
  entry keeps its ARE field (and its address and label), and its payload is set to 0:
  the payload is unchanged only if it was 0 before.
\<close>

theorem resolve_unmatched_word:
  assumes "resolve_labels_in_place code tab exts = (code', exts')"
    and "i < length code"
    and "mw_label (code ! i) \<noteq> []"
    and "find_symbol tab (mw_label (code ! i)) = None"
    and "mw_label (code ! i) \<notin> set (map ext_labels exts)"
  shows "mw_are (code' ! i) = mw_are (code ! i) \<and> mw_value (code' ! i) = 0 \<and>
         mw_address (code' ! i) = mw_address (code ! i) \<and>
         mw_label (code' ! i) = mw_label (code ! i)"
proof -
  from resolve_labels_nth [OF assms(1,2)] obtain exts1 exts2 where
    l: "map ext_labels exts1 = map ext_labels exts" and
    w: "resolve_word (code ! i) tab exts1 = (code' ! i, exts2)"
    by blast
  from l assms(5) have "first_extern exts1 (mw_label (code ! i)) = None"
    by (simp add: first_extern_None)
  from resolve_word_unmatched [OF w assms(3,4) this] resolve_word_frame [OF w]
  show ?thesis
    by simp
qed

theorem resolve_unmatched_word_witness:
  "mw_are (fst (resolve_labels_in_place
      [\<lparr>mw_address = 100, mw_label = ''X'', mw_value = 5, mw_are = 0\<rparr>] [] []) ! 0) = 0 \<and>
   mw_value (fst (resolve_labels_in_place
      [\<lparr>mw_address = 100, mw_label = ''X'', mw_value = 5, mw_are = 0\<rparr>] [] []) ! 0) = 0"
proof -
  obtain code' exts' where r: "resolve_labels_in_place
      [\<lparr>mw_address = 100, mw_label = ''X'', mw_value = 5, mw_are = 0\<rparr>] [] [] = (code', exts')"
    by (cases "resolve_labels_in_place
      [\<lparr>mw_address = 100, mw_label = ''X'', mw_value = 5, mw_are = 0\<rparr>] [] []") blast
  from resolve_unmatched_word [OF r, of 0] show ?thesis
    by (simp add: r del: resolve_labels_in_place.simps)
qed

text \<open>
  The claim as it was stated fails: a word with payload 5 and a label that matches
  neither a symbol nor an extern has payload 0 after \<open>resolve_labels_in_place\<close>.
\<close>

theorem resolve_unmatched_payload_counterexample:
  "find_symbol [] ''X'' = None \<and> ''X'' \<notin> set (map ext_labels []) \<and>
   mw_value (hd (fst (resolve_labels_in_place
      [\<lparr>mw_address = 100, mw_label = ''X'', mw_value = 5, mw_are = 0\<rparr>] [] [])))
     \<noteq> mw_value \<lparr>mw_address = 100, mw_label = ''X'', mw_value = 5, mw_are = 0\<rparr>"
  by (simp add: resolve_word_def)

text \<open>
  C7. After the second pass, for every code-image word whose label reference matches
  an extern declaration and no symbol-table entry, the payload is 0, the ARE is
  External, and the word's address appears exactly once in that extern's usage list
  (and in no other); the address of a word resolved through the symbol table is in no
  extern usage list. The first pass hands over code words with pairwise distinct
  addresses and extern declarations with empty usage lists.
\<close>

theorem extern_usage_completeness:
  assumes "resolve_labels_in_place code tab exts = (code', exts')"
    and "distinct (map mw_address code)"
    and "\<forall>e \<in> set exts. ext_addr_head e = []"
    and "i < length code"
    and "mw_label (code ! i) \<noteq> []"
  shows "(find_symbol tab (mw_label (code ! i)) = None \<and>
          first_extern exts (mw_label (code ! i)) = Some j \<longrightarrow>
            mw_value (code' ! i) = 0 \<and> mw_are (code' ! i) = are_bits ARE_EXT \<and>
            j < length exts' \<and> ext_labels (exts' ! j) = mw_label (code ! i) \<and>
            count_list (ext_addr_head (exts' ! j)) (mw_address (code ! i)) = 1 \<and>
            (\<forall>k < length exts'. k \<noteq> j \<longrightarrow>
               mw_address (code ! i) \<notin> set (ext_addr_head (exts' ! k)))) \<and>
         (find_symbol tab (mw_label (code ! i)) \<noteq> None \<longrightarrow>
            (\<forall>e \<in> set exts'. mw_address (code ! i) \<notin> set (ext_addr_head e)))"
proof -
  note E = resolve_labels_externs [OF assms(1)]
  have mem: "code ! i \<in> set code"
    using assms(4) by simp
  have usage: "ext_addr_head (exts' ! k) = map mw_address (filter (uses_extern tab exts k) code)"
    if "k < length exts" for k
    using E assms(3) that by simp
  have cnt: "count_list (ext_addr_head (exts' ! k)) (mw_address (code ! i))
               = (if uses_extern tab exts k (code ! i) then 1 else 0)"
    if "k < length exts" for k
    using count_list_map_filter [OF assms(2) mem] usage [OF that] by simp
  have part1: "mw_value (code' ! i) = 0 \<and> mw_are (code' ! i) = are_bits ARE_EXT \<and>
            j < length exts' \<and> ext_labels (exts' ! j) = mw_label (code ! i) \<and>
            count_list (ext_addr_head (exts' ! j)) (mw_address (code ! i)) = 1 \<and>
            (\<forall>k < length exts'. k \<noteq> j \<longrightarrow>
               mw_address (code ! i) \<notin> set (ext_addr_head (exts' ! k)))"
    if n: "find_symbol tab (mw_label (code ! i)) = None"
      and f: "first_extern exts (mw_label (code ! i)) = Some j"
  proof -
    from resolve_labels_nth [OF assms(1,4)] obtain exts1 exts2 where
      l: "map ext_labels exts1 = map ext_labels exts" and
      w: "resolve_word (code ! i) tab exts1 = (code' ! i, exts2)"
      by blast
    from f have "first_extern exts1 (mw_label (code ! i)) = Some j"
      using first_extern_cong [OF l, of "mw_label (code ! i)"] by simp
    from resolve_word_extern [OF w assms(5) n this]
    have a: "mw_value (code' ! i) = 0 \<and> mw_are (code' ! i) = are_bits ARE_EXT"
      by simp
    from first_extern_Some [OF f] have j: "j < length exts" "ext_labels (exts ! j) = mw_label (code ! i)"
      by simp_all
    have jl: "j < length exts'"
      using j E by simp
    then have "ext_labels (exts' ! j) = map ext_labels exts' ! j"
      by (rule nth_map [symmetric])
    also have "\<dots> = map ext_labels exts ! j"
      using E by simp
    also have "\<dots> = ext_labels (exts ! j)"
      using j(1) by (rule nth_map)
    finally have b: "j < length exts' \<and> ext_labels (exts' ! j) = mw_label (code ! i)"
      using jl j(2) by simp
    have u: "uses_extern tab exts k (code ! i) \<longleftrightarrow> k = j" for k
      using assms(5) n f by (auto simp: uses_extern_def)
    have c: "count_list (ext_addr_head (exts' ! j)) (mw_address (code ! i)) = 1"
      using cnt [OF j(1)] u by simp
    have d: "mw_address (code ! i) \<notin> set (ext_addr_head (exts' ! k))"
      if "k < length exts'" "k \<noteq> j" for k
    proof -
      from that E have "k < length exts"
        by simp
      from cnt [OF this] u that(2) show ?thesis
        by (simp add: count_list_0_iff)
    qed
    from a b c d show ?thesis
      by blast
  qed
  have part2: "mw_address (code ! i) \<notin> set (ext_addr_head e)"
    if s: "find_symbol tab (mw_label (code ! i)) \<noteq> None" and e: "e \<in> set exts'" for e
  proof -
    from e obtain k where k: "k < length exts'" "e = exts' ! k"
      by (auto simp: in_set_conv_nth)
    with E have "k < length exts"
      by simp
    from cnt [OF this] s k show ?thesis
      by (simp add: uses_extern_def count_list_0_iff)
  qed
  from part1 part2 show ?thesis
    by blast
qed

theorem extern_usage_completeness_witness:
  "count_list (ext_addr_head (snd (resolve_labels_in_place
       [\<lparr>mw_address = 100, mw_label = ''W'', mw_value = 0, mw_are = 0\<rparr>,
        \<lparr>mw_address = 101, mw_label = ''L'', mw_value = 0, mw_are = 0\<rparr>]
       [\<lparr>sym_key = ''L'', sym_value = 105, sym_type = CODE_SYMBOL\<rparr>]
       [\<lparr>ext_labels = ''W'', ext_addr_head = []\<rparr>]) ! 0)) 100 = 1 \<and>
   101 \<notin> set (concat (map ext_addr_head (snd (resolve_labels_in_place
       [\<lparr>mw_address = 100, mw_label = ''W'', mw_value = 0, mw_are = 0\<rparr>,
        \<lparr>mw_address = 101, mw_label = ''L'', mw_value = 0, mw_are = 0\<rparr>]
       [\<lparr>sym_key = ''L'', sym_value = 105, sym_type = CODE_SYMBOL\<rparr>]
       [\<lparr>ext_labels = ''W'', ext_addr_head = []\<rparr>]))))"
proof -
  obtain code' exts' where r: "resolve_labels_in_place
       [\<lparr>mw_address = 100, mw_label = ''W'', mw_value = 0, mw_are = 0\<rparr>,
        \<lparr>mw_address = 101, mw_label = ''L'', mw_value = 0, mw_are = 0\<rparr>]
       [\<lparr>sym_key = ''L'', sym_value = 105, sym_type = CODE_SYMBOL\<rparr>]
       [\<lparr>ext_labels = ''W'', ext_addr_head = []\<rparr>] = (code', exts')"
    by (meson surj_pair)
  have "count_list (ext_addr_head (exts' ! 0)) 100 = 1"
    using extern_usage_completeness [OF r, of 0 0] by simp
  moreover have "\<forall>e \<in> set exts'. 101 \<notin> set (ext_addr_head e)"
    using extern_usage_completeness [OF r, of 1 0] by simp
  then have "101 \<notin> set (concat (map ext_addr_head exts'))"
    by simp
  ultimately show ?thesis
    by (simp only: r snd_conv) simp
qed

section \<open>Properties of the object file\<close>

lemma quad_letter_a_iff: "quad_letter d = CHR ''a'' \<longleftrightarrow> unat d mod 4 = 0"
  by (simp add: quad_letter_cases)

lemma header_loop_eq:
  "unat v < 4 ^ (16 - length tmp) \<Longrightarrow> header_loop v tmp = tmp @ lsd_digits v"
proof (induction v tmp rule: header_loop.induct)
  case (1 v tmp)
  show ?case
  proof (cases "0 < v \<and> length tmp < 16")
    case True
    then obtain k where k: "16 - length tmp = Suc k"
      by (cases "16 - length tmp") auto
    then have k': "16 - length (tmp @ [quad_letter (v AND 3)]) = k"
      by simp
    from "1.prems" k have "unat v div 4 < 4 ^ k"
      by (simp add: less_mult_imp_div_less mult.commute)
    then have "unat (drop_bit 2 v) < 4 ^ (16 - length (tmp @ [quad_letter (v AND 3)]))"
      by (simp only: k' unat_drop_bit_2)
    from "1.IH" [OF True this] True show ?thesis
      by (subst header_loop.simps, subst lsd_digits.simps) auto
  next
    case False
    have "v = 0"
    proof (rule ccontr)
      assume "v \<noteq> 0"
      then have "0 < v"
        by (simp add: word_neq_0_conv)
      with False have "16 - length tmp = 0"
        by simp
      with "1.prems" have "unat v = 0"
        by simp
      with \<open>v \<noteq> 0\<close> show False
        by (simp add: unat_eq_0)
    qed
    then show ?thesis
      by (subst header_loop.simps, subst lsd_digits.simps) simp
  qed
qed

lemma header_loop_all: "header_loop v [] = lsd_digits v"
proof -
  have "unat v < 2 ^ 32"
    using unsigned_less [of v] by simp
  then have "unat v < 4 ^ (16 - length ([]::string))"
    by simp
  from header_loop_eq [OF this] show ?thesis
    by simp
qed

lemma set_lsd_digits: "set (lsd_digits v) \<subseteq> {CHR ''a'', CHR ''b'', CHR ''c'', CHR ''d''}"
proof (induction v rule: lsd_digits.induct)
  case (1 v)
  then show ?case
    using quad_letter_in_letters [of "v AND 3"]
    by (subst lsd_digits.simps) auto
qed

lemma decode_rev_lsd_digits: "spec_base4_decode (rev (lsd_digits v)) = Some (unat v)"
proof (induction v rule: lsd_digits.induct)
  case (1 v)
  show ?case
  proof (cases "v = 0")
    case True
    then show ?thesis
      by (subst lsd_digits.simps) (simp add: spec_base4_decode_def)
  next
    case False
    from decode_append [OF "1.IH" [OF False] digit_of_quad_letter [of "v AND 3"]] False
    have "spec_base4_decode (rev (lsd_digits v)) = Some (4 * (unat v div 4) + unat v mod 4)"
      by (subst lsd_digits.simps) (simp add: unat_and_3 unat_drop_bit_2)
    then show ?thesis
      by simp
  qed
qed

lemma last_lsd_digits: "v \<noteq> 0 \<Longrightarrow> lsd_digits v \<noteq> [] \<and> last (lsd_digits v) \<noteq> CHR ''a''"
proof (induction v rule: lsd_digits.induct)
  case (1 v)
  show ?case
  proof (cases "drop_bit 2 v = 0")
    case True
    then have "unat v div 4 = 0"
      using unat_drop_bit_2 [of v] by simp
    moreover have "unat v \<noteq> 0"
      using "1.prems" by (simp add: unat_eq_0)
    ultimately have "unat v mod 4 \<noteq> 0"
      by presburger
    then have "quad_letter (v AND 3) \<noteq> CHR ''a''"
      by (simp add: quad_letter_a_iff unat_and_3)
    moreover have "lsd_digits v = [quad_letter (v AND 3)]"
      using "1.prems" True by (subst lsd_digits.simps, subst lsd_digits.simps) simp
    ultimately show ?thesis
      by simp
  next
    case False
    from "1.IH" [OF "1.prems" False] "1.prems" show ?thesis
      by (subst lsd_digits.simps, subst (2) lsd_digits.simps) simp
  qed
qed

text \<open>
  The header encoding: letters a to d only, decoding to the value, and of minimum
  width (no leading \<open>a\<close>, except that 0 is the single letter \<open>a\<close>).
\<close>

lemma header_letters:
  "set (to_base4_letters_header v) \<subseteq> {CHR ''a'', CHR ''b'', CHR ''c'', CHR ''d''}"
  using set_lsd_digits [of v] by (simp add: to_base4_letters_header_def header_loop_all)

lemma header_decode: "spec_base4_decode (to_base4_letters_header v) = Some (unat v)"
proof (cases "v = 0")
  case True
  then show ?thesis
    by (simp add: to_base4_letters_header_def spec_base4_decode_def spec_letter_digit_def)
next
  case False
  then show ?thesis
    by (simp add: to_base4_letters_header_def header_loop_all decode_rev_lsd_digits)
qed

lemma header_min_width:
  "to_base4_letters_header v \<noteq> [] \<and>
   (v = 0 \<longrightarrow> to_base4_letters_header v = ''a'') \<and>
   (v \<noteq> 0 \<longrightarrow> hd (to_base4_letters_header v) \<noteq> CHR ''a'')"
  using last_lsd_digits [of v]
  by (auto simp: to_base4_letters_header_def header_loop_all hd_rev)

lemma write_code_section_appends:
  "\<exists>a b body. write_code_section code w (addr_buf, word_str, out) = (a, b, out @ body)"
proof (induction code arbitrary: addr_buf word_str out)
  case Nil
  then show ?case by simp
next
  case (Cons mw rest)
  show ?case
    using Cons [of "buffer_after addr_buf (to_base4_letters (word_of_int (mw_address mw)) w)"
       "buffer_after word_str (word10_to_letters_code (ucast (mw_value mw) AND 0xFF)
                                                (ucast (mw_are mw) AND 3))"
       "out @ buffer_after addr_buf (to_base4_letters (word_of_int (mw_address mw)) w) @ '' '' @
        buffer_after word_str (word10_to_letters_code (ucast (mw_value mw) AND 0xFF)
                                                (ucast (mw_are mw) AND 3)) @ [CHR 0x0A]"]
    by (auto simp: Let_def)
qed

lemma write_data_section_appends:
  "\<exists>a b body. write_data_section dat w (addr_buf, word_str, out) = (a, b, out @ body)"
proof (induction dat arbitrary: addr_buf word_str out)
  case Nil
  then show ?case by simp
next
  case (Cons dw rest)
  show ?case
    using Cons [of "buffer_after addr_buf (to_base4_letters (word_of_int (dw_address dw)) w)"
       "buffer_after word_str (word10_to_letters_data (ucast (dw_value dw)))"
       "out @ buffer_after addr_buf (to_base4_letters (word_of_int (dw_address dw)) w) @ '' '' @
        buffer_after word_str (word10_to_letters_data (ucast (dw_value dw))) @ [CHR 0x0A]"]
    by (auto simp: Let_def)
qed

text \<open>
  C4 (as amended). When \<open>write_ob_base4_only\<close> writes the object file, the file
  begins with a header line that consists of exactly a tab character, the \<open>IC_final\<close>
  argument in minimum-width base-4 letters, a tab character, \<open>DC_final\<close> in
  minimum-width base-4 letters, and a newline: the two encodings are made of the
  letters a to d only, they decode to the two values, and they have no leading \<open>a\<close>
  (the value 0 is the single letter \<open>a\<close>).
\<close>

theorem ob_header_line:
  assumes "ob_file st = None"
    and "ob_file (write_ob_base4_only stem code dat IC_final w DC_final st) = Some text"
    and "ic = to_base4_letters_header (word_of_int IC_final)"
    and "dc = to_base4_letters_header (word_of_int DC_final)"
  shows "(\<exists>body. text = [CHR 0x09] @ ic @ [CHR 0x09] @ dc @ [CHR 0x0A] @ body) \<and>
         set (ic @ dc) \<subseteq> {CHR ''a'', CHR ''b'', CHR ''c'', CHR ''d''} \<and>
         spec_base4_decode ic = Some (unat (word_of_int IC_final :: 32 word)) \<and>
         spec_base4_decode dc = Some (unat (word_of_int DC_final :: 32 word)) \<and>
         (ic = ''a'' \<or> hd ic \<noteq> CHR ''a'') \<and> (dc = ''a'' \<or> hd dc \<noteq> CHR ''a'')"
proof -
  let ?header = "[CHR 0x09] @ ic @ [CHR 0x09] @ dc @ [CHR 0x0A]"
  obtain a1 b1 body1 where
    c: "write_code_section code w (ic, dc, ?header) = (a1, b1, ?header @ body1)"
    using write_code_section_appends by blast
  obtain a2 b2 body2 where
    d: "write_data_section dat w (a1, b1, ?header @ body1) = (a2, b2, (?header @ body1) @ body2)"
    using write_data_section_appends by blast
  from assms c d have "text = (?header @ body1) @ body2"
    by (auto simp: write_ob_base4_only_def Let_def diag_error_second_pass_def
             split: if_splits)
  then have "\<exists>body. text = [CHR 0x09] @ ic @ [CHR 0x09] @ dc @ [CHR 0x0A] @ body"
    by simp
  moreover have "set (ic @ dc) \<subseteq> {CHR ''a'', CHR ''b'', CHR ''c'', CHR ''d''}"
    using header_letters [of "word_of_int IC_final"] header_letters [of "word_of_int DC_final"]
    by (simp add: assms(3,4))
  moreover have "ic = ''a'' \<or> hd ic \<noteq> CHR ''a''"
    using header_min_width [of "word_of_int IC_final"] by (auto simp: assms(3))
  moreover have "dc = ''a'' \<or> hd dc \<noteq> CHR ''a''"
    using header_min_width [of "word_of_int DC_final"] by (auto simp: assms(4))
  ultimately show ?thesis
    by (simp add: assms(3,4) header_decode)
qed

theorem ob_header_line_witness:
  "(\<exists>body. [CHR 0x09] @ ''c'' @ [CHR 0x09] @ ''a'' @ [CHR 0x0A] @ ''bcba aadda'' @ [CHR 0x0A]
              @ ''bcbb abaca'' @ [CHR 0x0A]
            = [CHR 0x09] @ ''c'' @ [CHR 0x09] @ ''a'' @ [CHR 0x0A] @ body) \<and>
   spec_base4_decode ''c'' = Some (unat (word_of_int 2 :: 32 word))"
proof -
  have f: "ob_file (write_ob_base4_only ''f''
             [\<lparr>mw_address = 100, mw_label = [], mw_value = 15, mw_are = 0\<rparr>,
              \<lparr>mw_address = 101, mw_label = [], mw_value = 18, mw_are = 0\<rparr>] [] 2 4 0 main_init)
           = Some ([CHR 0x09] @ ''c'' @ [CHR 0x09] @ ''a'' @ [CHR 0x0A] @ ''bcba aadda'' @ [CHR 0x0A]
                   @ ''bcbb abaca'' @ [CHR 0x0A])"
    by code_simp
  have n: "ob_file main_init = None"
    by (simp add: main_init_def)
  have ic: "''c'' = to_base4_letters_header (word_of_int 2)"
    by code_simp
  have dc: "''a'' = to_base4_letters_header (word_of_int 0)"
    by code_simp
  from ob_header_line [OF n f ic dc] show ?thesis
    by simp
qed

text \<open>
  The claim as it was stated fails: the source line \<open>stop\<close> is assembled with
  \<open>IC_final = 101\<close> and \<open>DC_final = 0\<close>, whose encodings are \<open>bcbb\<close> and \<open>a\<close>, and the
  object file begins with a tab, the letter \<open>b\<close> (the number of code words), a tab and
  \<open>a\<close>.
\<close>

theorem ob_header_counterexample:
  "ob_file (snd (first_pass ''f'' (Some [''stop'' @ [CHR 0x0A]]) main_init))
     = Some ([CHR 0x09] @ ''b'' @ [CHR 0x09] @ ''a'' @ [CHR 0x0A] @ ''bcba ddaaa'' @ [CHR 0x0A]) \<and>
   IC (snd (first_pass ''f'' (Some [''stop'' @ [CHR 0x0A]]) main_init)) = 101 \<and>
   DC (snd (first_pass ''f'' (Some [''stop'' @ [CHR 0x0A]]) main_init)) = 0 \<and>
   to_base4_letters_header 101 @ [CHR 0x09] @ to_base4_letters_header 0 @ [CHR 0x0A]
     = ''bcbb'' @ [CHR 0x09] @ ''a'' @ [CHR 0x0A] \<and>
   take 7 ([CHR 0x09] @ ''b'' @ [CHR 0x09] @ ''a'' @ [CHR 0x0A] @ ''bcba ddaaa'' @ [CHR 0x0A])
     \<noteq> ''bcbb'' @ [CHR 0x09] @ ''a'' @ [CHR 0x0A]"
proof -
  have "ob_file (snd (first_pass ''f'' (Some [''stop'' @ [CHR 0x0A]]) main_init))
     = Some ([CHR 0x09] @ ''b'' @ [CHR 0x09] @ ''a'' @ [CHR 0x0A] @ ''bcba ddaaa'' @ [CHR 0x0A])"
    by code_simp
  moreover have "IC (snd (first_pass ''f'' (Some [''stop'' @ [CHR 0x0A]]) main_init)) = 101"
    by code_simp
  moreover have "DC (snd (first_pass ''f'' (Some [''stop'' @ [CHR 0x0A]]) main_init)) = 0"
    by code_simp
  moreover have "to_base4_letters_header 101 @ [CHR 0x09] @ to_base4_letters_header 0 @ [CHR 0x0A]
     = ''bcbb'' @ [CHR 0x09] @ ''a'' @ [CHR 0x0A]"
    by code_simp
  moreover have
    "take 7 ([CHR 0x09] @ ''b'' @ [CHR 0x09] @ ''a'' @ [CHR 0x0A] @ ''bcba ddaaa'' @ [CHR 0x0A])
       \<noteq> ''bcbb'' @ [CHR 0x09] @ ''a'' @ [CHR 0x0A]"
    by simp
  ultimately show ?thesis
    by blast
qed

section \<open>Properties of the instruction encoder\<close>

lemma dropWhile_snoc: "\<not> P c \<Longrightarrow> dropWhile P (xs @ [c]) = dropWhile P xs @ [c]"
  by (simp add: dropWhile_append)

lemma trim_inplace_no_leading_space: "dropWhile isspace (trim_inplace x) = trim_inplace x"
proof (cases "dropWhile isspace x")
  case Nil
  show ?thesis
    unfolding trim_inplace_def Nil by simp
next
  case (Cons c ys)
  then have c: "\<not> isspace c"
    by (metis hd_dropWhile list.distinct(1) list.sel(1))
  have "dropWhile isspace (rev ys @ [c]) = dropWhile isspace (rev ys) @ [c]"
    using c by (rule dropWhile_snoc)
  then have "trim_inplace x = c # rev (dropWhile isspace (rev ys))"
    unfolding trim_inplace_def Cons by simp
  with c show ?thesis
    by simp
qed

lemma split_operands_two_trimmed:
  assumes "split_operands line = (2, Some s, Some d)"
  shows "dropWhile isspace s = s \<and> dropWhile isspace d = d"
proof -
  from assms obtain x y where "s = trim_inplace x" and "d = trim_inplace y"
    by (auto simp: split_operands_def Let_def split: if_splits option.splits)
  then show ?thesis
    by (simp add: trim_inplace_no_leading_space)
qed

lemma get_addr_method_register:
  "get_addr_method (Some s) = ADDR_REGISTER \<Longrightarrow> is_register_token (dropWhile isspace s)"
  by (auto simp: get_addr_method_def Let_def split: if_splits)

lemma reg_id_range: "is_register_token s \<Longrightarrow> 0 \<le> reg_id s \<and> reg_id s \<le> 7"
  by (auto simp: is_register_token_def reg_id_def is_valid_register_char_def
           split: list.splits)

lemma register_pair_payload:
  assumes "0 \<le> r" "r \<le> 7" "0 \<le> q" "q \<le> 7"
  shows "(ucast ((push_bit 4 ((word_of_int r :: 32 word) AND 0x0F) OR (word_of_int q AND 0x0F))
                 AND 0xFF) :: 8 word)
         = push_bit 4 (word_of_int r) OR word_of_int q"
proof -
  from assms have "r \<in> {0, 1, 2, 3, 4, 5, 6, 7}" and "q \<in> {0, 1, 2, 3, 4, 5, 6, 7}"
    by auto
  then show ?thesis
    by (elim insertE emptyE) simp_all
qed

lemma validate_register_pair:
  "fst (validate_modes_for_opcode cmd 2 ADDR_REGISTER ADDR_REGISTER st) = 0 \<longleftrightarrow>
     cmd \<in> {MOV, CMP, ADD, SUB}"
  by (cases cmd)
     (simp_all add: validate_modes_for_opcode_def validate_operand_def Let_def one_operand_rule_def
        AM_ALL_def AM_IMM_def AM_DIR_def AM_MAT_def AM_REG_def AM_NONE_def
        diag_error_opmodes_def split: prod.splits)

lemma validate_ok_state:
  "validate_modes_for_opcode cmd n s d st = (0, st') \<Longrightarrow> st' = st"
  by (auto simp: validate_modes_for_opcode_def validate_operand_def Let_def
           split: option.splits if_splits prod.splits)

lemma first_word_payload:
  assumes "cmd \<in> {MOV, CMP, ADD, SUB}"
  shows "(ucast ((push_bit 4 (opcode_value cmd AND 0x0F) OR push_bit 2 (to2bits ADDR_REGISTER AND 0x03)
                  OR (to2bits ADDR_REGISTER AND 0x03)) AND 0xFF) :: 8 word)
         = push_bit 4 (ucast (opcode_value cmd)) OR 0x0F"
  using assms by (elim insertE emptyE) simp_all

text \<open>
  C6. For every two-operand instruction whose source and destination operands are
  both in Register mode, exactly two machine words are emitted: the first word, and a
  single packed register word whose payload is \<open>(source register << 4) | destination
  register\<close> with ARE = Absolute. The instructions are the lines that
  \<open>validate_modes_for_opcode\<close> accepts with two Register operands (mov, cmp, add and
  sub; the rule of lea has no Register source).
\<close>

theorem register_pair_two_words:
  assumes "split_operands line = (2, Some s, Some d)"
    and "get_addr_method (Some s) = ADDR_REGISTER"
    and "get_addr_method (Some d) = ADDR_REGISTER"
    and "fst (validate_modes_for_opcode cmd 2 ADDR_REGISTER ADDR_REGISTER st) = 0"
  shows "process_commands_words cmd line st =
           (0, st\<lparr>ic_image := ic_image st @
                    [\<lparr>mw_address = int_of_long (IC st), mw_label = [],
                      mw_value = push_bit 4 (ucast (opcode_value cmd)) OR 0x0F,
                      mw_are = are_bits ARE_ABS\<rparr>,
                     \<lparr>mw_address = int_of_long (IC st + 1), mw_label = [],
                      mw_value = push_bit 4 (word_of_int (reg_id s)) OR word_of_int (reg_id d),
                      mw_are = are_bits ARE_ABS\<rparr>],
                  IC := IC st + 2\<rparr>)"
proof -
  from split_operands_two_trimmed [OF assms(1)] get_addr_method_register [OF assms(2)]
    get_addr_method_register [OF assms(3)]
  have regs: "is_register_token s" "is_register_token d"
    by simp_all
  note rs = reg_id_range [OF regs(1)] and rd = reg_id_range [OF regs(2)]
  from assms(4) have cmd: "cmd \<in> {MOV, CMP, ADD, SUB}"
    by (simp only: validate_register_pair)
  obtain v st1 where v: "validate_modes_for_opcode cmd 2 ADDR_REGISTER ADDR_REGISTER st = (v, st1)"
    by (meson surj_pair)
  with assms(4) have v0: "v = 0"
    by simp
  with v have st1: "st1 = st"
    by (simp add: validate_ok_state)
  have pay: "(ucast ((push_bit 4 ((word_of_int (reg_id s) :: 32 word) AND 0x0F)
                       OR (word_of_int (reg_id d) AND 0x0F)) AND 0xFF) :: 8 word)
             = push_bit 4 (word_of_int (reg_id s)) OR word_of_int (reg_id d)"
    using rs rd by (simp only: register_pair_payload)
  have neg: "\<not> (reg_id s < 0 \<or> reg_id d < 0)"
    using rs rd by simp
  show ?thesis
    unfolding process_commands_words_def
    by (simp only: assms(1,2,3) v v0 st1 neg pay first_word_payload [OF cmd]
          toBinaryFirstWord_def put_word_def Let_def prod.case option.case if_True if_False
          simp_thms)
       simp
qed

theorem register_pair_two_words_witness:
  "process_commands_words MOV (''mov r1, r2'' @ [CHR 0x0A]) main_init =
     (0, main_init\<lparr>ic_image :=
                      [\<lparr>mw_address = 100, mw_label = [], mw_value = 0x0F, mw_are = 0\<rparr>,
                       \<lparr>mw_address = 101, mw_label = [], mw_value = 0x12, mw_are = 0\<rparr>],
                    IC := 102\<rparr>)"
proof -
  have h1: "split_operands (''mov r1, r2'' @ [CHR 0x0A]) = (2, Some ''r1'', Some ''r2'')"
    by code_simp
  have h2: "get_addr_method (Some ''r1'') = ADDR_REGISTER"
    by code_simp
  have h3: "get_addr_method (Some ''r2'') = ADDR_REGISTER"
    by code_simp
  have h4: "fst (validate_modes_for_opcode MOV 2 ADDR_REGISTER ADDR_REGISTER main_init) = 0"
    by (simp add: validate_register_pair)
  have r: "reg_id ''r1'' = 1" "reg_id ''r2'' = 2"
    by code_simp+
  have a: "int_of_long 100 = 100" "int_of_long 101 = 101"
    by (simp_all add: int_of_long_def)
  have i: "IC main_init = 100" "ic_image main_init = []"
    by (simp_all add: main_init_def)
  from register_pair_two_words [OF h1 h2 h3 h4] show ?thesis
    by (simp add: r a i)
qed

section \<open>Properties of the immediate operand\<close>




lemma peek_Cons [simp]: "peek (c # cs) = c"
  by (simp add: peek_def)

lemma peek_Nil [simp]: "peek [] = CHR 0x00"
  by (simp add: peek_def)








lemma all_space_iff: "dropWhile isspace e = [] \<longleftrightarrow> list_all isspace e"
  by (simp add: list_all_iff)









section \<open>Properties of the \<open>.mat\<close> directive\<close>

lemma emit_data_word_effect:
  "length (data_img (emit_data_word v st)) = Suc (length (data_img st)) \<and>
   functions_errs (emit_data_word v st) = functions_errs st"
  by (simp add: emit_data_word_def)

lemma diag_error_functions_effect:
  "data_img (diag_error_functions c st) = data_img st \<and>
   functions_errs (diag_error_functions c st) = functions_errs st @ [c]"
  by (simp add: diag_error_functions_def)

text \<open>
  The initializer loop: the count of values produced never passes the number of
  cells, each value produced is one data word, and the loop does not report AS303.
\<close>

lemma mat_loop_effect:
  "mat_loop p e cells produced st = (rc, produced', st') \<Longrightarrow>
     produced \<le> produced' \<and> (produced \<le> cells \<longrightarrow> produced' \<le> cells) \<and>
     length (data_img st') = length (data_img st) + nat (produced' - produced) \<and>
     (\<exists>es. functions_errs st' = functions_errs st @ es \<and> ''AS303'' \<notin> set es)"
proof (induction p e cells produced st arbitrary: rc produced' st' rule: mat_loop.induct)
  case (1 p expect_value total_values produced st)
  let ?p1 = "skip_ws p"
  note eq = "1.prems" [unfolded mat_loop.simps [of p expect_value total_values produced st]]
  show ?case
  proof (cases "?p1 = []")
    case True
    with eq show ?thesis
      by (simp add: Let_def)
  next
    case ne: False
    show ?thesis
    proof (cases expect_value)
      case ev: True
      show ?thesis
      proof (cases "peek ?p1 = CHR '',''")
        case True
        with eq ne ev show ?thesis
          by (auto simp: Let_def diag_error_functions_effect)
      next
        case nc: False
        show ?thesis
        proof (cases "strtol ?p1")
          case None
          with eq ne ev nc show ?thesis
            by (auto simp: Let_def diag_error_functions_effect)
        next
          case (Some x)
          obtain v endptr where x: "x = (v, endptr)"
            by (cases x)
          show ?thesis
          proof (cases "in_data_range v \<and> \<not> produced \<ge> total_values")
            case False
            with eq ne ev nc Some x show ?thesis
              by (auto simp: Let_def diag_error_functions_effect split: if_splits)
          next
            case ok: True
            with eq ne ev nc Some x
            have r: "mat_loop endptr False total_values (produced + 1)
                       (emit_data_word (int_of_long v) st) = (rc, produced', st')"
              by (simp add: Let_def)
            have "?p1 = skip_ws p" "?p1 \<noteq> []" "expect_value" "peek ?p1 \<noteq> CHR '',''"
              "strtol ?p1 = Some x" "(v, endptr) = x" "\<not> \<not> in_data_range v"
              "\<not> total_values \<le> produced"
              using ne ev nc Some x ok by simp_all
            from "1.IH"(1) [OF this r] emit_data_word_effect [of "int_of_long v" st] ok
            show ?thesis
              by auto
          qed
        qed
      qed
    next
      case nev: False
      show ?thesis
      proof (cases "peek ?p1 = CHR '','' \<and> skip_ws (tl ?p1) \<noteq> []")
        case False
        with eq ne nev show ?thesis
          by (auto simp: Let_def diag_error_functions_effect split: if_splits)
      next
        case ok: True
        with eq ne nev
        have r: "mat_loop (tl ?p1) True total_values produced st = (rc, produced', st')"
          by (simp add: Let_def)
        have "?p1 = skip_ws p" "?p1 \<noteq> []" "\<not> expect_value" "peek ?p1 = CHR '',''"
          "skip_ws (tl ?p1) \<noteq> []"
          using ne nev ok by simp_all
        from "1.IH"(2) [OF this r] show ?thesis
          by simp
      qed
    qed
  qed
qed

lemma fill_zeros_effect:
  "length (data_img (fill_zeros n st)) = length (data_img st) + n \<and>
   functions_errs (fill_zeros n st) = functions_errs st"
  by (induction n arbitrary: st) (simp_all add: emit_data_word_effect)

lemma capacity_product:
  assumes "0 < rows" "0 < cols" "\<not> rows > 100 div cols"
  shows "rows * cols \<le> (100::int)"
proof -
  from assms have "rows * cols \<le> (100 div cols) * cols"
    by (simp add: mult_right_mono)
  also have "\<dots> \<le> 100"
    using div_mult_mod_eq [of 100 cols] pos_mod_sign [OF assms(2), of 100] by linarith
  finally show ?thesis .
qed


lemma fill_zeros_counters:
  "DC (fill_zeros n st) = DC st + int n \<and> IC (fill_zeros n st) = IC st"
  by (induction n arbitrary: st) (simp_all add: emit_data_word_def)

text \<open>
  As long as the two dimensions are positive as values of type \<open>int\<close>, the directive is
  turned away with AS303, before any data word is emitted, exactly when
  \<open>rows > 100 / cols\<close>, and an accepted directive emits \<open>rows * cols \<le> 100\<close> data words.
\<close>

lemma matrix_in_int_range:
  assumes "strstr (strip_inline_comment line) ''.mat'' = Some mat"
    and "parse_bracketed_pos_int (skip_ws (drop 4 mat)) = Some (rows, p1)"
    and "parse_bracketed_pos_int p1 = Some (cols, p2)"
    and "0 < rows" and "0 < cols"
  shows "(rows > 100 div cols \<longrightarrow>
            process_matrix_directive_at line st
              = (- 1, st\<lparr>functions_errs := functions_errs st @ [''AS303'']\<rparr>)) \<and>
         (\<not> rows > 100 div cols \<longrightarrow>
            (\<exists>es. functions_errs (snd (process_matrix_directive_at line st))
                    = functions_errs st @ es \<and> ''AS303'' \<notin> set es)) \<and>
         (fst (process_matrix_directive_at line st) = 0 \<longrightarrow>
            \<not> rows > 100 div cols \<and> rows * cols \<le> 100 \<and>
            length (data_img (snd (process_matrix_directive_at line st)))
              = length (data_img st) + nat (rows * cols))"
proof (cases "rows > 100 div cols")
  case True
  with assms show ?thesis
    by (simp add: process_matrix_directive_at_def diag_error_functions_def)
next
  case False
  obtain rc produced st1 where
    l: "mat_loop (skip_ws p2) True (rows * cols) 0 st = (rc, produced, st1)"
    by (metis surj_pair)
  note L = mat_loop_effect [OF l]
  from assms(4,5) have pos: "0 \<le> rows * cols"
    by simp
  with L have p: "0 \<le> produced" "produced \<le> rows * cols"
    by simp_all
  from L obtain es where es: "functions_errs st1 = functions_errs st @ es" "''AS303'' \<notin> set es"
    by blast
  have res: "process_matrix_directive_at line st =
               (if rc \<noteq> 0 then (- 1, st1)
                else (0, fill_zeros (nat (rows * cols - produced)) st1))"
    using assms False l by (simp add: process_matrix_directive_at_def)
  have len: "length (data_img (fill_zeros (nat (rows * cols - produced)) st1))
               = length (data_img st) + nat (rows * cols)"
    using L p by (simp add: fill_zeros_effect nat_diff_distrib nat_add_distrib [symmetric])
  show ?thesis
    using False es len capacity_product [OF assms(4,5) False]
    by (auto simp: res fill_zeros_effect)
qed

text \<open>
  C10. The claim: for every \<open>.mat\<close> directive whose bracketed dimensions parse as positive
  integers \<open>rows\<close> and \<open>cols\<close>, the directive is rejected with the dimensions-overflow
  error, before any data word is emitted, exactly when \<open>rows > 100 / cols\<close>, so that an
  accepted directive emits at most 100 data words. The code does not meet it.
  \<open>parse_bracketed_pos_int\<close> tests the sign of the \<open>long\<close> that \<open>strtol\<close> returns and then
  stores it in an \<open>int\<close>: the dimensions 4294967295 and 4294967195 become \<open>-1\<close> and
  \<open>-101\<close>, the test \<open>rows > 0 && cols > 0\<close> skips the capacity check, and the directive
  is accepted with \<open>(-1) * (-101) = 101\<close> data words and no error. Furthermore the
  directive written \<open>.MAT\<close> is recognised by the first pass, which compares the
  mnemonic without regard to case, but \<open>process_matrix_directive_at\<close> searches for
  \<open>.mat\<close> as written: \<open>.MAT [50][3]\<close> is turned away without AS303 or any other report.
\<close>

theorem matrix_capacity_int_wrap:
  "parse_bracketed_pos_int ''[4294967295][4294967195]'' = Some (- 1, ''[4294967195]'') \<and>
   parse_bracketed_pos_int ''[4294967195]'' = Some (- 101, []) \<and>
   process_matrix_directive_at ''.mat [4294967295][4294967195]'' main_init
     = (0, fill_zeros 101 main_init) \<and>
   length (data_img (fill_zeros 101 main_init)) = 101 \<and>
   DC (fill_zeros 101 main_init) = 101 \<and>
   functions_errs (fill_zeros 101 main_init) = [] \<and>
   get_command_type ''.MAT [50][3]'' main_init = (MATRIX, main_init) \<and>
   process_matrix_directive_at ''.MAT [50][3]'' main_init = (- 1, main_init)"
proof -
  have a1: "strstr (strip_inline_comment ''.mat [4294967295][4294967195]'') ''.mat''
              = Some ''.mat [4294967295][4294967195]''"
    by code_simp
  have a2: "parse_bracketed_pos_int (skip_ws '' [4294967295][4294967195]'')
              = Some (- 1, ''[4294967195]'')"
    by code_simp
  have a2': "parse_bracketed_pos_int ''[4294967295][4294967195]'' = Some (- 1, ''[4294967195]'')"
    by code_simp
  have a3: "parse_bracketed_pos_int ''[4294967195]'' = Some (- 101, [])"
    by code_simp
  have ml: "mat_loop (skip_ws []) True 101 0 main_init = (0, 0, main_init)"
    by (subst mat_loop.simps) (simp add: skip_ws_def)
  have r: "process_matrix_directive_at ''.mat [4294967295][4294967195]'' main_init
             = (0, fill_zeros 101 main_init)"
    by (simp add: process_matrix_directive_at_def a1 a2 a3 ml)
  have l: "length (data_img (fill_zeros 101 main_init)) = 101"
    "functions_errs (fill_zeros 101 main_init) = []"
    using fill_zeros_effect [of 101 main_init] by (simp_all add: main_init_def)
  have d: "DC (fill_zeros 101 main_init) = 101"
    using fill_zeros_counters [of 101 main_init] by (simp add: main_init_def)
  have g: "get_command_type ''.MAT [50][3]'' main_init = (MATRIX, main_init)"
    by code_simp
  have u: "process_matrix_directive_at ''.MAT [50][3]'' main_init = (- 1, main_init)"
    by code_simp
  show ?thesis
    using a2' a3 r l d g u by blast
qed
section \<open>What each stage may change\<close>

text \<open>
  The encoder changes the code image, IC and the error lists of words.c, opmodes.c
  and functions.c only; the directive parsers change the data image, DC and the error
  list of functions.c only. A property of the state that these updates preserve is
  preserved by the whole function.
\<close>

lemma validate_operand_preserves:
  assumes "\<And>s c. P s \<Longrightarrow> P (diag_error_opmodes c s)" and "P st"
  shows "P (snd (validate_operand rule mode is_source st))"
  using assms by (simp add: validate_operand_def Let_def)

lemma validate_modes_preserves:
  assumes o: "\<And>s c. P s \<Longrightarrow> P (diag_error_opmodes c s)" and "P st"
  shows "P (snd (validate_modes_for_opcode cmd n sm dm st))"
proof -
  have v: "P (snd (validate_operand rule mode b s))" if "P s" for rule mode b s
    using o that by (rule validate_operand_preserves)
  have v2: "P s'" if "validate_operand rule mode b s = (e, s')" "P s" for rule mode b s e s'
    using v [OF that(2), of rule mode b] that(1) by simp
  show ?thesis
    using assms
    by (auto simp: validate_modes_for_opcode_def Let_def split: option.splits prod.splits
             intro: v2)
qed

lemma emit_preserves:
  assumes u: "\<And>s img ic. P s \<Longrightarrow> P (s\<lparr>ic_image := img, IC := ic\<rparr>)" and "P st"
  shows "P (toBinaryFirstWord op sm dm st)" "P (emit_addr_word name a are st)"
    "P (emit_imm_word v st)" "P (emit_regcode_pair ra rb st)"
    "P (emit_regcode_single_dest r st)" "P (emit_regcode_single_src r st)"
    "P (emit_symbol_addr name st)"
  using assms
  by (simp_all add: toBinaryFirstWord_def emit_addr_word_def emit_imm_word_def
        emit_regcode_pair_def emit_regcode_single_dest_def emit_regcode_single_src_def
        emit_symbol_addr_def Let_def split: option.splits)

lemma split_matrix_ex_preserves:
  assumes "\<And>s c. P s \<Longrightarrow> P (diag_error_functions c s)" and "P st"
  shows "P (snd (split_matrix_ex tok st))"
  using assms
  by (simp add: split_matrix_ex_def report_matrix_error_def Let_def split: matrix_error_t.splits)

lemma encode_operand_preserves:
  assumes w: "\<And>s c. P s \<Longrightarrow> P (diag_error_words c s)"
    and f: "\<And>s c. P s \<Longrightarrow> P (diag_error_functions c s)"
    and u: "\<And>s img ic. P s \<Longrightarrow> P (s\<lparr>ic_image := img, IC := ic\<rparr>)"
    and "P st"
  shows "P (snd (encode_immediate_operand tok st))" "P (snd (encode_matrix_operand tok st))"
    "P (snd (encode_source_operand mode tok st))"
    "P (snd (encode_destination_operand mode tok st))"
proof -
  show i: "P (snd (encode_immediate_operand tok st))"
    using w emit_preserves(3) [of P, OF u] \<open>P st\<close>
    by (simp add: encode_immediate_operand_def split: option.splits)
  have m0: "P (snd (split_matrix_ex tok st))"
    using f \<open>P st\<close> by (rule split_matrix_ex_preserves)
  show m: "P (snd (encode_matrix_operand tok st))"
    using m0 w emit_preserves(4,7) [of P, OF u]
    by (auto simp: encode_matrix_operand_def split: prod.splits option.splits)
  show "P (snd (encode_source_operand mode tok st))"
    using i m w emit_preserves(6,7) [of P, OF u] \<open>P st\<close>
    by (cases mode) (simp_all add: encode_source_operand_def)
  show "P (snd (encode_destination_operand mode tok st))"
    using i m w emit_preserves(5,7) [of P, OF u] \<open>P st\<close>
    by (cases mode) (simp_all add: encode_destination_operand_def)
qed

text \<open>The shape of a run of \<open>process_commands_words\<close>, with its intermediate states named.\<close>

lemma process_commands_words_shape:
  assumes sp: "split_operands line = (n, a, b)"
    and sm: "sm = (if n = 2 then get_addr_method a else ADDR_NONE)"
    and dm: "dm = (if n = 2 then get_addr_method b
                   else if n = 1 then get_addr_method a else ADDR_NONE)"
    and src: "src = (case a of None \<Rightarrow> [] | Some s \<Rightarrow> s)"
    and dst: "dst = (case b of None \<Rightarrow> [] | Some s \<Rightarrow> s)"
    and v: "validate_modes_for_opcode cmd n sm dm st = (verr, st1)"
    and st2: "st2 = toBinaryFirstWord cmd sm dm st1"
    and e3: "(if n = 2 then encode_source_operand sm src st2 else (True, st2)) = (ok3, st3)"
    and e4: "(if n \<ge> 1 then encode_destination_operand dm (if n = 2 then dst else src) st3
              else (True, st3)) = (ok4, st4)"
  shows "process_commands_words cmd line st =
           (if verr \<noteq> 0 then (- 1, st1)
            else if n = 2 \<and> sm = ADDR_REGISTER \<and> dm = ADDR_REGISTER
            then (if reg_id src < 0 \<or> reg_id dst < 0
                  then (- 1, diag_error_words ''AS023'' st2)
                  else (0, st2\<lparr>ic_image :=
                                put_word (IC st2)
                                  (push_bit 4 (word_of_int (reg_id src) AND 0x0F)
                                     OR (word_of_int (reg_id dst) AND 0x0F))
                                  ARE_ABS None (ic_image st2),
                              IC := IC st2 + 1\<rparr>))
            else if \<not> ok3 then (- 1, st3)
            else if \<not> ok4 then (- 1, st4)
            else (0, st4))"
  unfolding process_commands_words_def sp prod.case Let_def
    sm [symmetric] dm [symmetric] src [symmetric] dst [symmetric] v st2 [symmetric] e3
  by (cases ok3; cases ok4; simp only: e4 prod.case bool.case if_True if_False simp_thms)

lemma process_commands_words_preserves:
  assumes w: "\<And>s c. P s \<Longrightarrow> P (diag_error_words c s)"
    and o: "\<And>s c. P s \<Longrightarrow> P (diag_error_opmodes c s)"
    and f: "\<And>s c. P s \<Longrightarrow> P (diag_error_functions c s)"
    and u: "\<And>s img ic. P s \<Longrightarrow> P (s\<lparr>ic_image := img, IC := ic\<rparr>)"
    and "P st"
  shows "P (snd (process_commands_words cmd line st))"
proof -
  obtain n a b where sp: "split_operands line = (n, a, b)"
    by (metis surj_pair)
  define sm where "sm = (if n = 2 then get_addr_method a else ADDR_NONE)"
  define dm where "dm = (if n = 2 then get_addr_method b
                          else if n = 1 then get_addr_method a else ADDR_NONE)"
  define src where "src = (case a of None \<Rightarrow> [] | Some s \<Rightarrow> s)"
  define dst where "dst = (case b of None \<Rightarrow> [] | Some s \<Rightarrow> s)"
  obtain verr st1 where v: "validate_modes_for_opcode cmd n sm dm st = (verr, st1)"
    by (metis surj_pair)
  have p1: "P st1"
    using validate_modes_preserves [of P, OF o \<open>P st\<close>, of cmd n sm dm] v by simp
  define st2 where "st2 = toBinaryFirstWord cmd sm dm st1"
  have p2: "P st2"
    unfolding st2_def using u p1 by (rule emit_preserves(1))
  obtain ok3 st3 where e3: "(if n = 2 then encode_source_operand sm src st2 else (True, st2))
                              = (ok3, st3)"
    by (metis surj_pair)
  have p3: "P st3"
    using encode_operand_preserves(3) [of P, OF w f u p2, of sm src] e3 p2
    by (auto split: if_splits)
  obtain ok4 st4 where e4: "(if n \<ge> 1 then encode_destination_operand dm
                                (if n = 2 then dst else src) st3 else (True, st3)) = (ok4, st4)"
    by (metis surj_pair)
  have p4: "P st4"
    using encode_operand_preserves(4) [of P, OF w f u p3, of dm "if n = 2 then dst else src"]
      e4 p3
    by (auto split: if_splits)
  show ?thesis
    using p1 p2 p3 p4 w u
    by (simp add: process_commands_words_shape [OF sp sm_def dm_def src_def dst_def v st2_def e3 e4])
qed

lemma emit_data_word_preserves:
  assumes "\<And>s img dc. P s \<Longrightarrow> P (s\<lparr>data_img := img, DC := dc\<rparr>)" and "P st"
  shows "P (emit_data_word v st)"
  using assms by (simp add: emit_data_word_def)

lemma data_loop_preserves:
  assumes f: "\<And>s c. P s \<Longrightarrow> P (diag_error_functions c s)"
    and d: "\<And>s img dc. P s \<Longrightarrow> P (s\<lparr>data_img := img, DC := dc\<rparr>)"
  shows "P st \<Longrightarrow> P (snd (data_loop p e sc st))"
proof (induction p e sc st rule: data_loop.induct)
  case (1 p expect_value seen_comma st)
  note e = emit_data_word_preserves [of P, OF d]
  show ?case
    using "1.prems" "1.IH" f e
    by (subst data_loop.simps) (auto simp: Let_def split: option.splits)
qed

lemma string_loop_preserves:
  assumes d: "\<And>s img dc. P s \<Longrightarrow> P (s\<lparr>data_img := img, DC := dc\<rparr>)"
  shows "P st \<Longrightarrow> P (snd (string_loop p st))"
  using emit_data_word_preserves [of P, OF d]
  by (induction p arbitrary: st) auto

lemma mat_loop_preserves:
  assumes f: "\<And>s c. P s \<Longrightarrow> P (diag_error_functions c s)"
    and d: "\<And>s img dc. P s \<Longrightarrow> P (s\<lparr>data_img := img, DC := dc\<rparr>)"
  shows "P st \<Longrightarrow> P (snd (snd (mat_loop p e cells n st)))"
proof (induction p e cells n st rule: mat_loop.induct)
  case (1 p expect_value total_values produced st)
  note e = emit_data_word_preserves [of P, OF d]
  show ?case
    using "1.prems" "1.IH" f e
    by (subst mat_loop.simps) (auto simp: Let_def split: option.splits)
qed

lemma fill_zeros_preserves:
  assumes d: "\<And>s img dc. P s \<Longrightarrow> P (s\<lparr>data_img := img, DC := dc\<rparr>)"
  shows "P st \<Longrightarrow> P (fill_zeros n st)"
  using emit_data_word_preserves [of P, OF d]
  by (induction n arbitrary: st) auto

lemma process_data_string_mat_preserves:
  assumes f: "\<And>s c. P s \<Longrightarrow> P (diag_error_functions c s)"
    and d: "\<And>s img dc. P s \<Longrightarrow> P (s\<lparr>data_img := img, DC := dc\<rparr>)"
    and "P st"
  shows "P (snd (process_data_string_mat cmd line st))"
proof -
  note e = emit_data_word_preserves [of P, OF d]
  have dt: "P (snd (process_data_directive_at line st))"
    using data_loop_preserves [of P, OF f d \<open>P st\<close>] \<open>P st\<close>
    by (simp add: process_data_directive_at_def split: option.splits)
  have sl: "P (snd (string_loop p st))" for p
    using d \<open>P st\<close> by (rule string_loop_preserves)
  have sl2: "P s'" if "string_loop p st = (q, s')" for p q s'
    using sl [of p] that by simp
  have st: "P (snd (process_string_directive_at line st))"
    using \<open>P st\<close> f
    by (auto simp: process_string_directive_at_def Let_def split: option.splits prod.splits
             intro!: e dest: sl2)
  have ml: "P s'" if "mat_loop p b t n st = (rc, k, s')" for p b t n rc k s'
    using mat_loop_preserves [of P, OF f d \<open>P st\<close>, of p b t n] that by simp
  have fz: "P (fill_zeros k s)" if "P s" for k s
    using d that by (rule fill_zeros_preserves)
  have mt: "P (snd (process_matrix_directive_at line st))"
    using \<open>P st\<close> f
    by (auto simp: process_matrix_directive_at_def Let_def split: option.splits prod.splits
             intro!: fz dest: ml)
  show ?thesis
    using dt st mt \<open>P st\<close>
    by (cases cmd) (simp_all add: process_data_string_mat_def)
qed

section \<open>The size bound of the first pass\<close>

text \<open>
  The label phase of a line reports errors of first\_pass.c and changes the symbol
  table; the \<open>.entry\<close> and \<open>.extern\<close> directives also extend their lists.
\<close>

lemma label_phase_preserves:
  assumes e: "\<And>s c. P s \<Longrightarrow> P (diag_error_first_pass c s)"
    and t: "\<And>s tab. P s \<Longrightarrow> P (s\<lparr>symtab := tab\<rparr>)"
    and "P st"
  shows "P (snd (validate_label_name l st))" "P (snd (snd (is_label_definition line st)))"
    "P (snd (get_command_type line st))" "P (process_valid_label l ty st)"
proof -
  have v: "P (snd (validate_label_name l st))" for l
    using e \<open>P st\<close> by (simp add: validate_label_name_def)
  show "P (snd (validate_label_name l st))"
    by (rule v)
  have v2: "P s'" if "validate_label_name l st = (ok, s')" for l ok s'
    using v [of l] that by simp
  show "P (snd (snd (is_label_definition line st)))"
    using e \<open>P st\<close>
    by (auto simp: is_label_definition_def Let_def split: prod.splits dest: v2)
  show "P (snd (get_command_type line st))"
    using e \<open>P st\<close> by (simp add: get_command_type_def Let_def)
  show "P (process_valid_label l ty st)"
    using t \<open>P st\<close> by (simp add: process_valid_label_def)
qed

lemma handle_directive_argument_preserves:
  assumes e: "\<And>s c. P s \<Longrightarrow> P (diag_error_first_pass c s)"
    and en: "\<And>s l. P s \<Longrightarrow> P (s\<lparr>ent_list := l\<rparr>)"
    and ex: "\<And>s l. P s \<Longrightarrow> P (s\<lparr>ext_list := l\<rparr>)"
    and "P st"
  shows "P (snd (handle_directive_argument is_entry arg st))"
  unfolding handle_directive_argument_def Let_def
  by (simp only: if_distrib [where f = snd] snd_conv e en ex \<open>P st\<close> if_cancel
        split: if_split, simp only: simp_thms)

text \<open>The shape of one iteration of the line loop, with its intermediate states named.\<close>

lemma first_pass_line_preserves:
  assumes e: "\<And>s c. P s \<Longrightarrow> P (diag_error_first_pass c s)"
    and t: "\<And>s tab. P s \<Longrightarrow> P (s\<lparr>symtab := tab\<rparr>)"
    and d: "\<And>cmd cp te h s. P s \<Longrightarrow> P (snd (dispatch_command cmd cp te (h, s)))"
    and "P st"
  shows "P (snd (first_pass_line raw (h, st)))"
proof -
  let ?start = "dropWhile isspace (c_str raw)"
  obtain has_label label_out st1
    where il: "is_label_definition ?start st = (has_label, label_out, st1)"
    by (metis prod_cases3)
  have p1: "P st1"
    using label_phase_preserves(2) [of P, OF e t \<open>P st\<close>, of ?start] il by simp
  let ?bad = "\<not> has_label \<and> colon_before_space ?start"
  let ?st2 = "if ?bad then diag_error_first_pass ''AS001'' st1 else st1"
  have p2: "P ?st2"
    using p1 e by simp
  let ?cp = "if has_label
             then dropWhile isspace (drop 1 (dropWhile (\<lambda>c. c \<noteq> CHR '':'') ?start))
             else ?start"
  let ?dup = "has_label \<and>
              (case label_out of None \<Rightarrow> False
               | Some l \<Rightarrow> find_symbol (symtab ?st2) l \<noteq> None)"
  let ?st3 = "if ?dup then diag_error_first_pass ''AS020'' ?st2 else ?st2"
  have p3: "P ?st3"
    using p2 e by (simp only: split: if_split) simp
  obtain cmd st4 where gc: "get_command_type ?cp ?st3 = (cmd, st4)"
    by (metis surj_pair)
  have p4: "P st4"
    using label_phase_preserves(3) [of P, OF e t p3, of ?cp] gc by (simp only: snd_conv)
  let ?st5 = "case (if ?dup then None else label_out) of
                None \<Rightarrow> st4
              | Some l \<Rightarrow>
                  if has_label \<and> cmd \<noteq> ENTRY \<and> cmd \<noteq> EXTERN
                  then process_valid_label l (determine_symbol_type cmd) st4
                  else st4"
  have pv: "P (process_valid_label l ty st4)" for l ty
    using e t p4 by (rule label_phase_preserves(4))
  have p5: "P ?st5"
  proof (cases "if ?dup then None else label_out")
    case None
    then show ?thesis using p4 by (simp only: option.case)
  next
    case (Some l)
    show ?thesis
      unfolding Some option.case
      using p4 pv by simp
  qed
  have shape: "snd (first_pass_line raw (h, st)) =
      (if ?start = [] \<or> peek ?start = CHR '';'' then st
       else if cmd = UNDEFINED then diag_error_first_pass ''AS002'' st4
       else snd (dispatch_command cmd ?cp (drop (length (command_token_chars ?cp)) ?cp)
                   (h \<or> ?bad \<or> ?dup, ?st5)))"
    unfolding first_pass_line_def prod.case Let_def il gc
    by (simp only: if_distrib [where f = snd] snd_conv)
  show ?thesis
    unfolding shape
    using \<open>P st\<close> e [OF p4] d [OF p5]
    by (simp only: split: if_split, simp only: simp_thms)
qed

lemma first_pass_lines_preserves:
  assumes e: "\<And>s c. P s \<Longrightarrow> P (diag_error_first_pass c s)"
    and t: "\<And>s tab. P s \<Longrightarrow> P (s\<lparr>symtab := tab\<rparr>)"
    and d: "\<And>cmd cp te h s. P s \<Longrightarrow> P (snd (dispatch_command cmd cp te (h, s)))"
  shows "P st \<Longrightarrow> P (snd (foldl (\<lambda>hs raw. first_pass_line raw hs) (h, st) lines))"
proof (induction lines arbitrary: h st)
  case Nil
  then show ?case by simp
next
  case (Cons raw lines)
  obtain h' st' where r: "first_pass_line raw (h, st) = (h', st')"
    by (metis surj_pair)
  have "P st'"
    using first_pass_line_preserves [of P, OF e t d Cons.prems, of raw h] r by simp
  then show ?case
    using Cons.IH [of st' h'] r by simp
qed

text \<open>
  After an instruction or a data directive the first pass calls \<open>check_sum_limit\<close>, so
  after every line either \<open>IC + DC < 255\<close> or the error has been reported since the
  start of the pass; and nothing in the first pass writes the object file.
\<close>

lemma check_sum_limit_effect:
  "IC (snd (check_sum_limit ic dc st)) = IC st"
  "DC (snd (check_sum_limit ic dc st)) = DC st"
  "ob_file (snd (check_sum_limit ic dc st)) = ob_file st"
  "first_pass_errs (snd (check_sum_limit ic dc st))
     = first_pass_errs st @ (if ic + dc < 255 then [] else [''AS_SUM_GE_LIMIT''])"
  by (simp_all add: check_sum_limit_def diag_error_first_pass_def)

lemma sum_checked_error:
  "sum_checked errs ob s \<Longrightarrow> sum_checked errs ob (diag_error_first_pass c s)"
  unfolding sum_checked_def diag_error_first_pass_def by auto

lemma dispatch_command_sum:
  assumes "sum_checked errs ob st"
  shows "sum_checked errs ob (snd (dispatch_command cmd cp te (h, st)))"
proof -
  from assms obtain es where es: "first_pass_errs st = errs @ es" and ob: "ob_file st = ob"
    unfolding sum_checked_def by blast
  define Q where "Q = (\<lambda>s :: asm_state. ob_file s = ob \<and> first_pass_errs s = errs @ es)"
  have q: "Q st"
    using es ob by (simp add: Q_def)
  have chk: "sum_checked errs ob (snd (check_sum_limit (IC s) (DC s) s))" if "Q s" for s
    using check_sum_limit_effect [of "IC s" "DC s" s] that
    unfolding sum_checked_def Q_def by auto
  have pc: "Q (snd (process_commands_words cmd cp st))"
    by (rule process_commands_words_preserves [of Q])
       (simp_all add: q, simp_all add: Q_def diag_error_words_def diag_error_opmodes_def
          diag_error_functions_def)
  have pd: "Q (snd (process_data_string_mat cmd cp st))"
    by (rule process_data_string_mat_preserves [of Q])
       (simp_all add: q, simp_all add: Q_def diag_error_functions_def)
  have hd: "sum_checked errs ob (snd (handle_directive_argument b a st))" for b a
  proof (rule handle_directive_argument_preserves [of "sum_checked errs ob"])
    show "sum_checked errs ob st"
      by (rule assms)
  qed (simp_all add: sum_checked_error, simp_all add: sum_checked_def)
  consider (ins) "opcode_rule cmd \<noteq> None"
    | (dat) "opcode_rule cmd = None" "cmd = DATA \<or> cmd = STRING \<or> cmd = MATRIX"
    | (ent) "opcode_rule cmd = None" "\<not> (cmd = DATA \<or> cmd = STRING \<or> cmd = MATRIX)" "cmd = ENTRY"
    | (ext) "opcode_rule cmd = None" "\<not> (cmd = DATA \<or> cmd = STRING \<or> cmd = MATRIX)"
        "cmd \<noteq> ENTRY" "cmd = EXTERN"
    | (oth) "opcode_rule cmd = None" "\<not> (cmd = DATA \<or> cmd = STRING \<or> cmd = MATRIX)"
        "cmd \<noteq> ENTRY" "cmd \<noteq> EXTERN"
    by blast
  then show ?thesis
  proof cases
    case ins
    obtain rc st1 where r: "process_commands_words cmd cp st = (rc, st1)"
      by (metis surj_pair)
    have "Q st1"
      using pc r by simp
    from chk [OF this] show ?thesis
      using ins r by (auto simp: dispatch_command_def split: prod.splits)
  next
    case dat
    obtain rc st1 where r: "process_data_string_mat cmd cp st = (rc, st1)"
      by (metis surj_pair)
    have "Q st1"
      using pd r by simp
    from chk [OF this] show ?thesis
      using dat r by (auto simp: dispatch_command_def split: prod.splits)
  next
    case ent
    then show ?thesis
      using hd [of True] by (simp add: dispatch_command_def)
  next
    case ext
    then show ?thesis
      using hd [of False] by (simp add: dispatch_command_def)
  next
    case oth
    then show ?thesis
      using assms by (simp add: dispatch_command_def)
  qed
qed

lemma first_pass_lines_sum:
  assumes "sum_checked errs ob st"
    and "foldl (\<lambda>hs raw. first_pass_line raw hs) (h, st) lines = (h', st')"
  shows "sum_checked errs ob st'"
proof -
  have t: "sum_checked errs ob (s\<lparr>symtab := tab\<rparr>)" if "sum_checked errs ob s" for s tab
    using that by (simp add: sum_checked_def)
  have "sum_checked errs ob (snd (foldl (\<lambda>hs raw. first_pass_line raw hs) (h, st) lines))"
    using assms(1)
    by (rule first_pass_lines_preserves [of "sum_checked errs ob", rotated 3])
       (rule sum_checked_error, assumption, rule t, assumption, rule dispatch_command_sum, assumption)
  then show ?thesis
    using assms(2) by simp
qed

lemma writers_counters:
  "IC (write_ob_base4_only stem code dat icf w dcf st) = IC st"
  "DC (write_ob_base4_only stem code dat icf w dcf st) = DC st"
  "IC (write_ent_base4_only stem ents st) = IC st"
  "DC (write_ent_base4_only stem ents st) = DC st"
  "IC (write_ext_base4_only stem exts st) = IC st"
  "DC (write_ext_base4_only stem exts st) = DC st"
  by (simp_all add: write_ob_base4_only_def write_ent_base4_only_def
        write_ext_base4_only_def diag_error_second_pass_def Let_def split: prod.splits)

lemma second_pass_counters:
  "IC (snd (second_pass stem ic dc st)) = IC st"
  "DC (snd (second_pass stem ic dc st)) = DC st"
  by (simp_all add: second_pass_def writers_counters diag_error_second_pass_def Let_def
        split: prod.splits)

text \<open>
  The counters after a run: the second pass does not change them, and a \<open>.mat\<close> line
  without a label and without initializers adds its number of cells to DC.
\<close>

lemma first_pass_counters:
  "IC (snd (first_pass stem (Some lines) st))
     = IC (snd (foldl (\<lambda>hs raw. first_pass_line raw hs) (False, initialize_file_processing st) lines))"
  "DC (snd (first_pass stem (Some lines) st))
     = DC (snd (foldl (\<lambda>hs raw. first_pass_line raw hs) (False, initialize_file_processing st) lines))"
  by (simp_all add: first_pass_def second_pass_counters split: prod.splits)

lemma get_command_type_state:
  "get_command_type l st0 = (cmd, st0') \<Longrightarrow> cmd \<noteq> UNDEFINED \<Longrightarrow> get_command_type l st = (cmd, st)"
  by (auto simp: get_command_type_def Let_def split: if_splits)

lemma is_label_definition_state:
  assumes "is_label_definition l st0 = (False, lo, st0)"
  shows "is_label_definition l st = (False, lo, st)"
proof -
  have n: "diag_error_first_pass c st0 \<noteq> st0" for c
  proof
    assume "diag_error_first_pass c st0 = st0"
    then have "first_pass_errs (diag_error_first_pass c st0) = first_pass_errs st0"
      by simp
    then show False
      by (simp add: diag_error_first_pass_def)
  qed
  show ?thesis
    using assms n
    by (auto simp: is_label_definition_def validate_label_name_def Let_def
             split: if_splits prod.splits)
qed

lemma matrix_line_counters:
  assumes "dropWhile isspace (c_str raw) = start" and "start \<noteq> []" and "peek start \<noteq> CHR '';''"
    and "is_label_definition start main_init = (False, lo, main_init)"
    and "\<not> colon_before_space start"
    and "get_command_type start main_init = (MATRIX, main_init)"
    and "strstr (strip_inline_comment start) ''.mat'' = Some mat"
    and "parse_bracketed_pos_int (skip_ws (drop 4 mat)) = Some (rows, p1)"
    and "parse_bracketed_pos_int p1 = Some (cols, p2)"
    and "skip_ws p2 = []" and "0 < rows" and "0 < cols" and "rows \<le> 100 div cols"
  shows "DC (snd (first_pass_line raw (h, st))) = DC st + rows * cols \<and>
         IC (snd (first_pass_line raw (h, st))) = IC st"
proof -
  have il: "is_label_definition start st = (False, lo, st)"
    using assms(4) by (rule is_label_definition_state)
  have gc: "get_command_type start st = (MATRIX, st)"
    using assms(6) by (rule get_command_type_state) simp
  have ml: "mat_loop [] True (rows * cols) 0 st = (0, 0, st)"
    by (subst mat_loop.simps) (simp add: skip_ws_def)
  have pm: "process_matrix_directive_at start st = (0, fill_zeros (nat (rows * cols)) st)"
    using assms(7-13) ml by (simp add: process_matrix_directive_at_def)
  have "0 \<le> rows * cols"
    using assms(11,12) by simp
  then have fz: "DC (fill_zeros (nat (rows * cols)) st) = DC st + rows * cols"
    "IC (fill_zeros (nat (rows * cols)) st) = IC st"
    using fill_zeros_counters [of "nat (rows * cols)" st] by simp_all
  have l: "first_pass_line raw (h, st)
             = dispatch_command MATRIX start (drop (length (command_token_chars start)) start) (h, st)"
    unfolding first_pass_line_def prod.case Let_def assms(1)
    using assms(2,3,5) by (simp add: il gc split: option.splits)
  show ?thesis
    unfolding l
    using fz check_sum_limit_effect(1,2)
      [of "IC (fill_zeros (nat (rows * cols)) st)" "DC (fill_zeros (nat (rows * cols)) st)"
          "fill_zeros (nat (rows * cols)) st"]
    by (auto simp: dispatch_command_def process_data_string_mat_def pm split: prod.splits)
qed

lemma repeated_line_counters:
  assumes "\<And>h st. DC (snd (first_pass_line raw (h, st))) = DC st + k \<and>
                   IC (snd (first_pass_line raw (h, st))) = IC st"
  shows "DC (snd (foldl (\<lambda>hs r. first_pass_line r hs) (h, st) (replicate n raw))) = DC st + int n * k \<and>
         IC (snd (foldl (\<lambda>hs r. first_pass_line r hs) (h, st) (replicate n raw))) = IC st"
proof (induction n arbitrary: h st)
  case 0
  then show ?case by simp
next
  case (Suc n)
  obtain h' st' where r: "first_pass_line raw (h, st) = (h', st')"
    by (metis surj_pair)
  with assms [of h st] have "DC st' = DC st + k" "IC st' = IC st"
    by simp_all
  with Suc [of h' st'] r show ?case
    by (simp add: algebra_simps)
qed

text \<open>
  C2. When \<open>first_pass\<close> returns 0 (success; the second pass has run), the final
  counters satisfy \<open>(IC - 100) + DC \<le> 255\<close>; the test of the source is the stricter
  \<open>IC + DC < 255\<close> on the absolute counter. When the final counters have
  \<open>(IC - 100) + DC > 255\<close>, \<open>first_pass\<close> returns 1, the error \<open>AS_SUM_GE_LIMIT\<close> has
  been appended to the errors of first\_pass.c during the call, and the object file is
  the one from before the call: none is written.
\<close>

theorem size_bound:
  assumes "first_pass stem (Some lines) st = (rc, st')"
  shows "(rc = 0 \<longrightarrow> IC st' + DC st' < 255 \<and> (IC st' - 100) + DC st' \<le> 255) \<and>
         ((IC st' - 100) + DC st' > 255 \<longrightarrow>
            rc = 1 \<and>
            (\<exists>es. first_pass_errs st' = first_pass_errs st @ es \<and> ''AS_SUM_GE_LIMIT'' \<in> set es) \<and>
            ob_file st' = ob_file st)"
proof -
  obtain h st1
    where f: "foldl (\<lambda>hs raw. first_pass_line raw hs) (False, initialize_file_processing st) lines
                = (h, st1)"
    by (metis surj_pair)
  have "sum_checked (first_pass_errs st) (ob_file st) (initialize_file_processing st)"
    by (simp add: sum_checked_def initialize_file_processing_def)
  from first_pass_lines_sum [OF this f]
  obtain es where es: "first_pass_errs st1 = first_pass_errs st @ es"
    and j: "IC st1 + DC st1 < 255 \<or> ''AS_SUM_GE_LIMIT'' \<in> set es"
    and ob: "ob_file st1 = ob_file st"
    unfolding sum_checked_def by blast
  show ?thesis
  proof (cases "first_pass_errs st1 = [] \<and> \<not> h")
    case True
    then have r: "rc = 0" "st' = snd (second_pass stem (IC st1 - 100) (DC st1) st1)"
      using assms f by (simp_all add: first_pass_def)
    have "IC st' = IC st1" "DC st' = DC st1"
      unfolding r by (rule second_pass_counters)+
    moreover have "IC st1 + DC st1 < 255"
      using j es True by simp
    ultimately show ?thesis
      by simp
  next
    case False
    then have r: "rc = 1" "st' = st1"
      using assms f by (auto simp: first_pass_def)
    show ?thesis
      using j es ob unfolding r by auto
  qed
qed

theorem size_bound_witness:
  "fst (first_pass ''prog'' (Some [''stop'' @ [CHR 0x0A]]) main_init) = 0 \<and>
   (IC (snd (first_pass ''prog'' (Some [''stop'' @ [CHR 0x0A]]) main_init)) - 100)
     + DC (snd (first_pass ''prog'' (Some [''stop'' @ [CHR 0x0A]]) main_init)) \<le> 255 \<and>
   IC (snd (first_pass ''big'' (Some (replicate 3 (''.mat [10][10]'' @ [CHR 0x0A]))) main_init)) = 100 \<and>
   DC (snd (first_pass ''big'' (Some (replicate 3 (''.mat [10][10]'' @ [CHR 0x0A]))) main_init)) = 300 \<and>
   fst (first_pass ''big'' (Some (replicate 3 (''.mat [10][10]'' @ [CHR 0x0A]))) main_init) = 1 \<and>
   ''AS_SUM_GE_LIMIT''
     \<in> set (first_pass_errs
               (snd (first_pass ''big'' (Some (replicate 3 (''.mat [10][10]'' @ [CHR 0x0A]))) main_init))) \<and>
   ob_file (snd (first_pass ''big'' (Some (replicate 3 (''.mat [10][10]'' @ [CHR 0x0A]))) main_init)) = None"
proof -
  let ?raw = "''.mat [10][10]'' @ [CHR 0x0A]"
  have a: "fst (first_pass ''prog'' (Some [''stop'' @ [CHR 0x0A]]) main_init) = 0"
    by code_simp
  have f1: "dropWhile isspace (c_str ?raw) = ?raw"
    by code_simp
  have f2: "?raw \<noteq> []"
    by simp
  have f3: "peek ?raw \<noteq> CHR '';''"
    by code_simp
  have f4: "is_label_definition ?raw main_init = (False, None, main_init)"
    by code_simp
  have f5: "\<not> colon_before_space ?raw"
    by code_simp
  have f6: "get_command_type ?raw main_init = (MATRIX, main_init)"
    by code_simp
  have f7: "strstr (strip_inline_comment ?raw) ''.mat'' = Some ?raw"
    by code_simp
  have f8: "parse_bracketed_pos_int (skip_ws (drop 4 ?raw)) = Some (10, ''[10]'' @ [CHR 0x0A])"
    by code_simp
  have f9: "parse_bracketed_pos_int (''[10]'' @ [CHR 0x0A]) = Some (10, [CHR 0x0A])"
    by code_simp
  have f10: "skip_ws [CHR 0x0A] = []"
    by code_simp
  have line: "DC (snd (first_pass_line ?raw (h, st))) = DC st + 100 \<and>
              IC (snd (first_pass_line ?raw (h, st))) = IC st" for h st
    using matrix_line_counters [OF f1 f2 f3 f4 f5 f6 f7 f8 f9 f10, of h st] by simp
  have c: "IC (snd (first_pass ''big'' (Some (replicate 3 ?raw)) main_init)) = 100"
    and d: "DC (snd (first_pass ''big'' (Some (replicate 3 ?raw)) main_init)) = 300"
    using repeated_line_counters [of ?raw 100 False "initialize_file_processing main_init" 3, OF line]
    by (simp_all only: first_pass_counters)
       (simp_all add: initialize_file_processing_def main_init_def)
  have n: "ob_file main_init = None" "first_pass_errs main_init = []"
    by (simp_all add: main_init_def)
  show ?thesis
    using size_bound [OF prod.collapse [symmetric],
            of "''prog''" "[''stop'' @ [CHR 0x0A]]" main_init]
      size_bound [OF prod.collapse [symmetric], of "''big''" "replicate 3 ?raw" main_init]
      a c d n
    by auto
qed
section \<open>Data addresses and the guard of the second pass\<close>

text \<open>
  C3. The claim: after assembly every data-image word has an address at or above the
  final IC, the data image sitting after all code words. The code does not meet it.
  A data word gets the address \<open>DC + IC\<close> of the moment its directive is read, and the
  call of \<open>relocate_data\<close> in \<open>main\<close> is commented out (it would also come after the
  object file is written). For the source \<open>A: .data 5\<close>, \<open>stop\<close> the assembly succeeds
  with a final IC of 101, the data word has the address 100, which is the address of
  the code word of \<open>stop\<close>, and the object file has two lines with the address
  \<open>bcba\<close>. When the data follows the code the address is the expected 101.
\<close>

theorem data_image_not_relocated:
  "fst (first_pass ''f'' (Some [''A: .data 5'' @ [CHR 0x0A], ''stop'' @ [CHR 0x0A]]) main_init) = 0 \<and>
   IC (snd (first_pass ''f'' (Some [''A: .data 5'' @ [CHR 0x0A], ''stop'' @ [CHR 0x0A]]) main_init))
     = 101 \<and>
   data_img (snd (first_pass ''f'' (Some [''A: .data 5'' @ [CHR 0x0A], ''stop'' @ [CHR 0x0A]]) main_init))
     = [\<lparr>dw_address = 100, dw_value = 5\<rparr>] \<and>
   map mw_address
     (ic_image (snd (first_pass ''f'' (Some [''A: .data 5'' @ [CHR 0x0A], ''stop'' @ [CHR 0x0A]]) main_init)))
     = [100] \<and>
   ob_file (snd (first_pass ''f'' (Some [''A: .data 5'' @ [CHR 0x0A], ''stop'' @ [CHR 0x0A]]) main_init))
     = Some ([CHR 0x09] @ ''b'' @ [CHR 0x09] @ ''b'' @ [CHR 0x0A] @
             ''bcba ddaaa'' @ [CHR 0x0A] @ ''bcba aaabb'' @ [CHR 0x0A]) \<and>
   data_img (snd (first_pass ''f'' (Some [''stop'' @ [CHR 0x0A], ''A: .data 5'' @ [CHR 0x0A]]) main_init))
     = [\<lparr>dw_address = 101, dw_value = 5\<rparr>]"
proof -
  have "fst (first_pass ''f'' (Some [''A: .data 5'' @ [CHR 0x0A], ''stop'' @ [CHR 0x0A]]) main_init) = 0"
    by code_simp
  moreover have
    "IC (snd (first_pass ''f'' (Some [''A: .data 5'' @ [CHR 0x0A], ''stop'' @ [CHR 0x0A]]) main_init))
       = 101"
    by code_simp
  moreover have
    "data_img (snd (first_pass ''f'' (Some [''A: .data 5'' @ [CHR 0x0A], ''stop'' @ [CHR 0x0A]]) main_init))
       = [\<lparr>dw_address = 100, dw_value = 5\<rparr>]"
    by code_simp
  moreover have
    "map mw_address
       (ic_image (snd (first_pass ''f'' (Some [''A: .data 5'' @ [CHR 0x0A], ''stop'' @ [CHR 0x0A]]) main_init)))
       = [100]"
    by code_simp
  moreover have
    "ob_file (snd (first_pass ''f'' (Some [''A: .data 5'' @ [CHR 0x0A], ''stop'' @ [CHR 0x0A]]) main_init))
       = Some ([CHR 0x09] @ ''b'' @ [CHR 0x09] @ ''b'' @ [CHR 0x0A] @
               ''bcba ddaaa'' @ [CHR 0x0A] @ ''bcba aaabb'' @ [CHR 0x0A])"
    by code_simp
  moreover have
    "data_img (snd (first_pass ''f'' (Some [''stop'' @ [CHR 0x0A], ''A: .data 5'' @ [CHR 0x0A]]) main_init))
       = [\<lparr>dw_address = 101, dw_value = 5\<rparr>]"
    by code_simp
  ultimately show ?thesis
    by blast
qed

text \<open>
  C5. The claim: if any error was recorded during the first pass, operand-count and
  addressing-mode errors of instructions included, the second pass is not executed.
  The code does not meet it. \<open>first_pass\<close> tests the error count of first\_pass.c and
  its own flag, it does not use the return value of \<open>process_commands_words\<close>, and the
  errors of the instruction encoder are counted in words.c and opmodes.c. For the
  source \<open>mov r1\<close> the operand-count error AS003 is reported, and for \<open>mov r1, #5\<close>
  the addressing-mode error AS022; in both cases \<open>first_pass\<close> returns 0 and the second
  pass writes an object file, which holds the header \<open>a a\<close> only. An error of a data
  directive does stop it: for \<open>.data x\<close> nothing is written.
\<close>

theorem second_pass_after_operand_error:
  "opmodes_errs (snd (first_pass ''f'' (Some [''mov r1'' @ [CHR 0x0A]]) main_init)) = [''AS003''] \<and>
   fst (first_pass ''f'' (Some [''mov r1'' @ [CHR 0x0A]]) main_init) = 0 \<and>
   ob_file (snd (first_pass ''f'' (Some [''mov r1'' @ [CHR 0x0A]]) main_init))
     = Some ([CHR 0x09] @ ''a'' @ [CHR 0x09] @ ''a'' @ [CHR 0x0A]) \<and>
   opmodes_errs (snd (first_pass ''f'' (Some [''mov r1, #5'' @ [CHR 0x0A]]) main_init)) = [''AS022''] \<and>
   fst (first_pass ''f'' (Some [''mov r1, #5'' @ [CHR 0x0A]]) main_init) = 0 \<and>
   ob_file (snd (first_pass ''f'' (Some [''mov r1, #5'' @ [CHR 0x0A]]) main_init))
     = Some ([CHR 0x09] @ ''a'' @ [CHR 0x09] @ ''a'' @ [CHR 0x0A]) \<and>
   fst (first_pass ''f'' (Some [''.data x'' @ [CHR 0x0A]]) main_init) = 1 \<and>
   ob_file (snd (first_pass ''f'' (Some [''.data x'' @ [CHR 0x0A]]) main_init)) = None"
proof -
  have "opmodes_errs (snd (first_pass ''f'' (Some [''mov r1'' @ [CHR 0x0A]]) main_init)) = [''AS003'']"
    by code_simp
  moreover have "fst (first_pass ''f'' (Some [''mov r1'' @ [CHR 0x0A]]) main_init) = 0"
    by code_simp
  moreover have
    "ob_file (snd (first_pass ''f'' (Some [''mov r1'' @ [CHR 0x0A]]) main_init))
       = Some ([CHR 0x09] @ ''a'' @ [CHR 0x09] @ ''a'' @ [CHR 0x0A])"
    by code_simp
  moreover have
    "opmodes_errs (snd (first_pass ''f'' (Some [''mov r1, #5'' @ [CHR 0x0A]]) main_init)) = [''AS022'']"
    by code_simp
  moreover have "fst (first_pass ''f'' (Some [''mov r1, #5'' @ [CHR 0x0A]]) main_init) = 0"
    by code_simp
  moreover have
    "ob_file (snd (first_pass ''f'' (Some [''mov r1, #5'' @ [CHR 0x0A]]) main_init))
       = Some ([CHR 0x09] @ ''a'' @ [CHR 0x09] @ ''a'' @ [CHR 0x0A])"
    by code_simp
  moreover have "fst (first_pass ''f'' (Some [''.data x'' @ [CHR 0x0A]]) main_init) = 1"
    by code_simp
  moreover have "ob_file (snd (first_pass ''f'' (Some [''.data x'' @ [CHR 0x0A]]) main_init)) = None"
    by code_simp
  ultimately show ?thesis
    by blast
qed

end
